theory Spec2Isabelle
  imports Main "HOL-Library.AList"
begin

section \<open>The request layer of src/utils/request.ts\<close>

text \<open>
  The file defines a credential store (\<open>authStore\<close>) and a singleton class \<open>Request\<close>
  whose methods are asynchronous. JavaScript runs them on one thread: a method runs
  without interruption until it awaits a platform call (\<open>wx.request\<close>, \<open>wx.login\<close>),
  and goes on when the platform answers. The embedding follows that:
  \<^item> every method is a function from the state to the state that runs the method up to
    the platform call it awaits, where it stores the rest of the computation (a
    continuation, \<open>cont\<close>) in the table of pending calls;
  \<^item> \<open>resume\<close> runs a stored continuation with the answer of the platform;
  \<^item> the environment is a sequence of events: a caller invokes \<open>request\<close>, or the platform
    answers one pending call.
  The state carries a trace of the actions performed, in program order.
\<close>

subsection \<open>Data\<close>

text \<open>The payload of an outgoing request: \<open>data\<close> of the caller, \<open>{ code }\<close> of the login
  exchange, \<open>{ oldToken }\<close> of the refresh exchange.\<close>

datatype body = NoData | Raw string | LoginCode string | OldToken string

text \<open>\<open>interface RequestConfig extends RequestOption\<close>. An optional field that is absent is
  \<open>None\<close>; an absent \<open>header\<close> spreads like the empty object and is the empty list.\<close>

record RequestConfig =
  url :: string
  httpMethod :: "string option"
  data :: body
  header :: "(string \<times> string) list"
  loading :: "bool option"
  auth :: "bool option"
  retry :: "int option"

text \<open>The \<open>data\<close> of a response: its \<open>token\<close> field (the login and refresh exchanges are
  typed \<open>{ token: string }\<close> and are the only readers) and the rest, opaque.\<close>

record payload =
  ptoken :: string
  pbody :: string

text \<open>\<open>interface ResponseData<T>\<close>; its field \<open>data\<close> is \<open>rdata\<close> here.\<close>

record ResponseData =
  code :: int
  rdata :: payload
  message :: string

text \<open>Thrown values: \<open>new Error(message)\<close> of \<open>handleRequest\<close>, and the failure objects of
  the platform (\<open>fail\<close> callback of \<open>wx.request\<close>, rejection of \<open>wx.login\<close>).\<close>

datatype error = Error string | PlatformFail string

text \<open>The options object handed to \<open>wx.request\<close>: the spread config with \<open>url\<close>,
  \<open>timeout\<close> and \<open>header\<close> overridden.\<close>

record wx_options =
  o_url :: string
  o_method :: "string option"
  o_data :: body
  o_timeout :: nat
  o_header :: "(string \<times> string) list"

text \<open>The rest of a computation that awaits a response envelope, innermost frame first.
  \<^item> \<open>Caller c\<close>: the promise handed to the outside caller \<open>c\<close>;
  \<^item> \<open>RequestFinally config k\<close>: \<open>request\<close> after \<open>await this.handleRequest\<close>;
  \<^item> \<open>AfterSend config retryCount k\<close>: \<open>handleRequest\<close> after \<open>await this.wxRequest\<close>;
  \<^item> \<open>AfterLoginRequest config retryCount k\<close>: \<open>login\<close> after \<open>await this.request\<close>,
    called by \<open>handleRequest config retryCount\<close>;
  \<^item> \<open>AfterRefreshRequest config k\<close>: \<open>refreshToken\<close> after \<open>await this.request\<close>,
    called by \<open>handleTokenExpired config\<close>.
  In each, \<open>k\<close> receives the outcome of the promise that the method at the bottom of the
  frame returned.\<close>

datatype cont =
    Caller nat
  | RequestFinally RequestConfig cont
  | AfterSend RequestConfig nat cont
  | AfterLoginRequest RequestConfig nat cont
  | AfterRefreshRequest RequestConfig cont

text \<open>A platform call that has not answered yet: \<open>wx.request\<close> awaited by \<open>wxRequest\<close>, or
  \<open>wx.login\<close> awaited by \<open>login\<close> (called by \<open>handleRequest config retryCount\<close>).\<close>

datatype pending_call =
    WxRequestCall cont
  | WxLoginCall RequestConfig nat cont

text \<open>The actions of the trace: the entry into \<open>request\<close> and \<open>refreshToken\<close>, the methods
  of \<open>authStore\<close>, the platform calls, and the writes to the two fields of \<open>Request\<close>.\<close>

datatype action =
    CallRequest RequestConfig
  | CallRefreshToken
  | GetToken
  | SetToken string
  | ClearToken
  | GetStorageSync
  | SetStorageSync string
  | RemoveStorageSync
  | ShowLoading
  | HideLoading
  | WxLogin
  | WxRequest wx_options
  | ConsoleError error
  | SetIsRefreshing bool
  | QueuePush RequestConfig
  | QueueReset

type_synonym outcome = "error + ResponseData"

text \<open>\<open>token\<close> is \<open>authStore.token\<close>, \<open>storage\<close> the persisted value under the key
  \<open>'token'\<close>, \<open>isRefreshing\<close> and \<open>retryQueue\<close> the fields of the \<open>Request\<close> singleton. A
  closure of the queue is the config it captured and the continuation of the promise it
  resolves. \<open>results\<close> collects what the outside callers received.\<close>

record state =
  token :: string
  storage :: "string option"
  isRefreshing :: bool
  retryQueue :: "(RequestConfig \<times> cont) list"
  pending :: "(nat \<times> pending_call) list"
  nextId :: nat
  results :: "(nat \<times> outcome) list"
  trace :: "action list"

definition init :: state where
  "init = \<lparr> token = [], storage = None, isRefreshing = False, retryQueue = [],
            pending = [], nextId = 0, results = [], trace = [] \<rparr>"

definition BASE_URL :: string where
  "BASE_URL = ''https://your-api-domain.com''"

definition TIMEOUT :: nat where
  "TIMEOUT = 10000"

definition MAX_RETRY_COUNT :: int where
  "MAX_RETRY_COUNT = 3"

text \<open>The literal of \<open>handleRequest\<close> ("request failed" in Chinese), as its UTF-8 bytes.\<close>

definition REQUEST_FAILED :: string where
  "REQUEST_FAILED = [CHR 0xE8, CHR 0xAF, CHR 0xB7, CHR 0xE6, CHR 0xB1, CHR 0x82,
                     CHR 0xE5, CHR 0xA4, CHR 0xB1, CHR 0xE8, CHR 0xB4, CHR 0xA5]"

subsection \<open>The platform\<close>

definition emit :: "action \<Rightarrow> state \<Rightarrow> state" where
  "emit a s = s\<lparr>trace := trace s @ [a]\<rparr>"

text \<open>Modelled from the spec: the persistent storage capability is synchronous get, set
  and remove for the key \<open>'token'\<close>, and a get gives the empty string if none exists.\<close>

definition wx_getStorageSync :: "state \<Rightarrow> string \<times> state" where
  "wx_getStorageSync s =
     ((case storage s of None \<Rightarrow> [] | Some t \<Rightarrow> t), emit GetStorageSync s)"

definition wx_setStorageSync :: "string \<Rightarrow> state \<Rightarrow> state" where
  "wx_setStorageSync t s = (emit (SetStorageSync t) s)\<lparr>storage := Some t\<rparr>"

definition wx_removeStorageSync :: "state \<Rightarrow> state" where
  "wx_removeStorageSync s = (emit RemoveStorageSync s)\<lparr>storage := None\<rparr>"

text \<open>Modelled from the spec: the transport and the platform login are opaque
  capabilities that answer later, once, with a result or a failure. A call is recorded
  with a fresh identifier and the continuation that awaits it, newest first.\<close>

definition await_call :: "pending_call \<Rightarrow> state \<Rightarrow> state" where
  "await_call c s = s\<lparr>pending := (nextId s, c) # pending s, nextId := Suc (nextId s)\<rparr>"

definition wx_request :: "wx_options \<Rightarrow> cont \<Rightarrow> state \<Rightarrow> state" where
  "wx_request options k s = await_call (WxRequestCall k) (emit (WxRequest options) s)"

definition wx_login :: "RequestConfig \<Rightarrow> nat \<Rightarrow> cont \<Rightarrow> state \<Rightarrow> state" where
  "wx_login config retryCount k s =
     await_call (WxLoginCall config retryCount k) (emit WxLogin s)"

subsection \<open>authStore\<close>

definition setToken :: "string \<Rightarrow> state \<Rightarrow> state" where
  "setToken t s = wx_setStorageSync t ((emit (SetToken t) s)\<lparr>token := t\<rparr>)"

definition getToken :: "state \<Rightarrow> string \<times> state" where
  "getToken s =
     (let s1 = emit GetToken s;
          s2 = (if token s1 = []
                then (let (v, s') = wx_getStorageSync s1 in s'\<lparr>token := v\<rparr>)
                else s1)
      in (token s2, s2))"

definition clearToken :: "state \<Rightarrow> state" where
  "clearToken s = wx_removeStorageSync ((emit ClearToken s)\<lparr>token := []\<rparr>)"

subsection \<open>The methods of Request, up to their first await\<close>

definition mergeConfig :: "RequestConfig \<Rightarrow> RequestConfig" where
  "mergeConfig config =
     config\<lparr> loading := (case loading config of None \<Rightarrow> Some False | Some b \<Rightarrow> Some b),
             auth := (case auth config of None \<Rightarrow> Some True | Some b \<Rightarrow> Some b),
             retry := (case retry config of None \<Rightarrow> Some MAX_RETRY_COUNT | Some n \<Rightarrow> Some n) \<rparr>"

text \<open>Truthiness of an optional boolean field, and \<open>config.retry || MAX_RETRY_COUNT\<close>.\<close>

definition truthy :: "bool option \<Rightarrow> bool" where
  "truthy b = (b = Some True)"

definition retryBound :: "RequestConfig \<Rightarrow> int" where
  "retryBound config =
     (case retry config of
        None \<Rightarrow> MAX_RETRY_COUNT
      | Some n \<Rightarrow> if n = 0 then MAX_RETRY_COUNT else n)"

text \<open>The object literal of \<open>wxRequest\<close>, for the value of its \<open>Authorization\<close> entry.\<close>

definition requestOptions :: "RequestConfig \<Rightarrow> string \<Rightarrow> wx_options" where
  "requestOptions config authorization =
     \<lparr> o_url = BASE_URL @ url config,
       o_method = httpMethod config,
       o_data = data config,
       o_timeout = TIMEOUT,
       o_header = AList.update ''Content-Type'' ''application/json''
                    (AList.update ''Authorization'' authorization (header config)) \<rparr>"

definition wxRequest :: "RequestConfig \<Rightarrow> cont \<Rightarrow> state \<Rightarrow> state" where
  "wxRequest config k s =
     (let (authorization, s1) =
            (if truthy (auth config)
             then (let (t, s') = getToken s in (''Bearer '' @ t, s'))
             else ([], s))
      in wx_request (requestOptions config authorization) k s1)"

text \<open>\<open>login\<close> up to \<open>await wx.login()\<close>; \<open>handleRequest config retryCount\<close> is its only
  caller and \<open>k\<close> the continuation of that call of \<open>handleRequest\<close>.\<close>

definition login :: "RequestConfig \<Rightarrow> nat \<Rightarrow> cont \<Rightarrow> state \<Rightarrow> state" where
  "login config retryCount k s = wx_login config retryCount k s"

definition handleRequest :: "RequestConfig \<Rightarrow> nat \<Rightarrow> cont \<Rightarrow> state \<Rightarrow> state" where
  "handleRequest config retryCount k s =
     (if truthy (auth config)
      then (let (t, s1) = getToken s
            in if t = [] then login config retryCount k s1
               else wxRequest config (AfterSend config retryCount k) s1)
      else wxRequest config (AfterSend config retryCount k) s)"

definition request :: "RequestConfig \<Rightarrow> cont \<Rightarrow> state \<Rightarrow> state" where
  "request config k s =
     (let s0 = emit (CallRequest config) s;
          finalConfig = mergeConfig config;
          s1 = (if truthy (loading finalConfig) then emit ShowLoading s0 else s0)
      in handleRequest finalConfig 0 (RequestFinally finalConfig k) s1)"

definition loginConfig :: "string \<Rightarrow> RequestConfig" where
  "loginConfig c = \<lparr> url = ''/auth/login'', httpMethod = Some ''POST'', data = LoginCode c,
                     header = [], loading = None, auth = Some False, retry = None \<rparr>"

definition refreshConfig :: "string \<Rightarrow> RequestConfig" where
  "refreshConfig t = \<lparr> url = ''/auth/refresh'', httpMethod = Some ''POST'', data = OldToken t,
                       header = [], loading = None, auth = Some False, retry = None \<rparr>"

text \<open>\<open>refreshToken\<close> up to \<open>await this.request\<close>; \<open>handleTokenExpired config\<close> is its only
  caller and \<open>k\<close> the continuation of that call.\<close>

definition refreshToken :: "RequestConfig \<Rightarrow> cont \<Rightarrow> state \<Rightarrow> state" where
  "refreshToken config k s =
     (let s0 = emit CallRefreshToken s;
          (t, s1) = getToken s0
      in request (refreshConfig t) (AfterRefreshRequest config k) s1)"

definition handleTokenExpired :: "RequestConfig \<Rightarrow> cont \<Rightarrow> state \<Rightarrow> state" where
  "handleTokenExpired config k s =
     (if isRefreshing s
      then (emit (QueuePush config) s)\<lparr>retryQueue := retryQueue s @ [(config, k)]\<rparr>
      else refreshToken config k ((emit (SetIsRefreshing True) s)\<lparr>isRefreshing := True\<rparr>))"

subsection \<open>The methods after an await\<close>

text \<open>The \<open>try\<close> and \<open>catch\<close> of \<open>login\<close> and of \<open>refreshToken\<close> after their exchange
  answered: the token they return, or the error they throw again.\<close>

definition login_finish :: "outcome \<Rightarrow> state \<Rightarrow> (error + string) \<times> state" where
  "login_finish r s =
     (case r of
        Inr res \<Rightarrow> (Inr (ptoken (rdata res)), setToken (ptoken (rdata res)) s)
      | Inl e \<Rightarrow> (Inl e, emit (ConsoleError e) s))"

definition refreshToken_finish :: "outcome \<Rightarrow> state \<Rightarrow> (error + string) \<times> state" where
  "refreshToken_finish r s =
     (case r of
        Inr res \<Rightarrow> (Inr (ptoken (rdata res)), setToken (ptoken (rdata res)) s)
      | Inl e \<Rightarrow> (Inl e, clearToken s))"

text \<open>\<open>this.retryQueue.forEach((retry) => retry())\<close>: every closure calls \<open>request\<close> with
  its config and resolves its promise with the promise of that call.\<close>

definition drainQueue :: "state \<Rightarrow> state" where
  "drainQueue s = foldl (\<lambda>s' (config, k). request config k s') s (retryQueue s)"

text \<open>\<open>response.message || '...'\<close>.\<close>

definition failureMessage :: "ResponseData \<Rightarrow> string" where
  "failureMessage response = (if message response = [] then REQUEST_FAILED else message response)"

text \<open>A \<open>return\<close> of a promise that is not awaited hands the continuation over: the
  \<open>catch\<close> around it does not see a rejection of that promise.\<close>

fun resume :: "cont \<Rightarrow> outcome \<Rightarrow> state \<Rightarrow> state" where
  "resume (Caller c) r s = s\<lparr>results := results s @ [(c, r)]\<rparr>"
| "resume (RequestFinally finalConfig k) r s =
     resume k r (if truthy (loading finalConfig) then emit HideLoading s else s)"
| "resume (AfterSend config retryCount k) r s =
     (case r of
        Inr response \<Rightarrow>
          if code response = 200 then resume k (Inr response) s
          else if code response = 401 then handleTokenExpired config k s
          else if int retryCount < retryBound config
               then handleRequest config (retryCount + 1) k s
               else resume k (Inl (Error (failureMessage response))) s
      | Inl e \<Rightarrow>
          if int retryCount < retryBound config
          then handleRequest config (retryCount + 1) k s
          else resume k (Inl e) s)"
| "resume (AfterLoginRequest config retryCount k) r s =
     (case login_finish r s of
        (Inr t, s1) \<Rightarrow> wxRequest config (AfterSend config retryCount k) s1
      | (Inl e, s1) \<Rightarrow>
          if int retryCount < retryBound config
          then handleRequest config (retryCount + 1) k s1
          else resume k (Inl e) s1)"
| "resume (AfterRefreshRequest config k) r s =
     (case refreshToken_finish r s of
        (Inr t, s1) \<Rightarrow>
          (let s2 = (emit (SetIsRefreshing False) s1)\<lparr>isRefreshing := False\<rparr>;
               s3 = drainQueue s2;
               s4 = (emit QueueReset s3)\<lparr>retryQueue := []\<rparr>
           in request config k s4)
      | (Inl e, s1) \<Rightarrow>
          (let s2 = (emit (SetIsRefreshing False) s1)\<lparr>isRefreshing := False\<rparr>;
               s3 = (emit QueueReset s2)\<lparr>retryQueue := []\<rparr>
           in resume k (Inl e) s3))"

text \<open>\<open>login\<close> after \<open>await wx.login()\<close>, inside the \<open>try\<close> of the \<open>handleRequest\<close> that
  called it.\<close>

definition resume_login ::
  "RequestConfig \<Rightarrow> nat \<Rightarrow> cont \<Rightarrow> error + string \<Rightarrow> state \<Rightarrow> state" where
  "resume_login config retryCount k r s =
     (case r of
        Inr c \<Rightarrow> request (loginConfig c) (AfterLoginRequest config retryCount k) s
      | Inl e \<Rightarrow>
          (let s1 = emit (ConsoleError e) s
           in if int retryCount < retryBound config
              then handleRequest config (retryCount + 1) k s1
              else resume k (Inl e) s1))"

subsection \<open>The environment\<close>

datatype reply =
    RequestSuccess ResponseData
  | RequestFail error
  | LoginSuccess string
  | LoginFail error

datatype event = Call nat RequestConfig | Deliver nat reply

definition deliver :: "pending_call \<Rightarrow> reply \<Rightarrow> state \<Rightarrow> state option" where
  "deliver c rep s =
     (case (c, rep) of
        (WxRequestCall k, RequestSuccess res) \<Rightarrow> Some (resume k (Inr res) s)
      | (WxRequestCall k, RequestFail e) \<Rightarrow> Some (resume k (Inl e) s)
      | (WxLoginCall config retryCount k, LoginSuccess cd) \<Rightarrow>
          Some (resume_login config retryCount k (Inr cd) s)
      | (WxLoginCall config retryCount k, LoginFail e) \<Rightarrow>
          Some (resume_login config retryCount k (Inl e) s)
      | _ \<Rightarrow> None)"

text \<open>An event the state cannot take (no such pending call, or an answer of the wrong
  kind) gives \<open>None\<close>.\<close>

definition step :: "event \<Rightarrow> state \<Rightarrow> state option" where
  "step ev s =
     (case ev of
        Call c config \<Rightarrow> Some (request config (Caller c) s)
      | Deliver i rep \<Rightarrow>
          (case map_of (pending s) i of
             None \<Rightarrow> None
           | Some c \<Rightarrow> deliver c rep (s\<lparr>pending := AList.delete i (pending s)\<rparr>)))"

fun run :: "event list \<Rightarrow> state \<Rightarrow> state option" where
  "run [] s = Some s"
| "run (ev # evs) s = (case step ev s of None \<Rightarrow> None | Some s' \<Rightarrow> run evs s')"

inductive reachable :: "state \<Rightarrow> bool" where
  reachable_init: "reachable init"
| reachable_step: "reachable s \<Longrightarrow> step ev s = Some s' \<Longrightarrow> reachable s'"

subsection \<open>The requests of the exported api object\<close>

definition getUser :: RequestConfig where
  "getUser = \<lparr> url = ''/user/info'', httpMethod = Some ''GET'', data = NoData, header = [],
                loading = Some True, auth = None, retry = None \<rparr>"

definition updateUser :: "string \<Rightarrow> RequestConfig" where
  "updateUser d = \<lparr> url = ''/user/update'', httpMethod = Some ''POST'', data = Raw d,
                     header = [], loading = Some True, auth = None, retry = None \<rparr>"

subsection \<open>Observations\<close>

text \<open>What \<open>authStore.getToken()\<close> returns in a state, and the \<open>Authorization\<close> entry that
  \<open>wxRequest\<close> computes with it.\<close>

definition credential :: "state \<Rightarrow> string" where
  "credential s = fst (getToken s)"

definition authorization :: "RequestConfig \<Rightarrow> state \<Rightarrow> string" where
  "authorization config s = (if truthy (auth config) then ''Bearer '' @ credential s else [])"

text \<open>The transport requests of a trace, in order.\<close>

fun sent :: "action list \<Rightarrow> wx_options list" where
  "sent [] = []"
| "sent (WxRequest options # as) = options # sent as"
| "sent (a # as) = sent as"

text \<open>An answer of the transport that makes an attempt of \<open>handleRequest\<close> throw: a
  transport failure, or an envelope whose code is neither 200 nor 401; and the error the
  attempt throws.\<close>

fun failing :: "reply \<Rightarrow> bool" where
  "failing (RequestFail e) = True"
| "failing (RequestSuccess response) = (code response \<noteq> 200 \<and> code response \<noteq> 401)"
| "failing _ = False"

text \<open>The answer that makes \<open>handleRequest\<close> call \<open>handleTokenExpired\<close>.\<close>

fun expired :: "reply \<Rightarrow> bool" where
  "expired (RequestSuccess response) = (code response = 401)"
| "expired _ = False"

text \<open>The number of entries into \<open>refreshToken\<close> in a trace.\<close>

fun refreshCalls :: "action list \<Rightarrow> nat" where
  "refreshCalls [] = 0"
| "refreshCalls (CallRefreshToken # as) = Suc (refreshCalls as)"
| "refreshCalls (a # as) = refreshCalls as"

text \<open>The accesses to the credential store in a trace: the methods of \<open>authStore\<close> and
  the storage calls they make.\<close>

fun storeActions :: "action list \<Rightarrow> action list" where
  "storeActions [] = []"
| "storeActions (GetToken # as) = GetToken # storeActions as"
| "storeActions (SetToken t # as) = SetToken t # storeActions as"
| "storeActions (ClearToken # as) = ClearToken # storeActions as"
| "storeActions (GetStorageSync # as) = GetStorageSync # storeActions as"
| "storeActions (SetStorageSync t # as) = SetStorageSync t # storeActions as"
| "storeActions (RemoveStorageSync # as) = RemoveStorageSync # storeActions as"
| "storeActions (a # as) = storeActions as"

text \<open>The steps of the refresh protocol in a trace: the writes to \<open>isRefreshing\<close>, the
  reset of the queue and the calls of \<open>request\<close>.\<close>

fun protocolSteps :: "action list \<Rightarrow> action list" where
  "protocolSteps [] = []"
| "protocolSteps (SetIsRefreshing b # as) = SetIsRefreshing b # protocolSteps as"
| "protocolSteps (QueueReset # as) = QueueReset # protocolSteps as"
| "protocolSteps (CallRequest config # as) = CallRequest config # protocolSteps as"
| "protocolSteps (a # as) = protocolSteps as"

text \<open>The executions of the Refresh Flow that have started and not finished: the frames of
  \<open>refreshToken\<close> in the continuations that the state holds, in the pending calls and in
  the closures of the queue.\<close>

fun refreshFrames :: "cont \<Rightarrow> nat" where
  "refreshFrames (Caller c) = 0"
| "refreshFrames (RequestFinally config k) = refreshFrames k"
| "refreshFrames (AfterSend config retryCount k) = refreshFrames k"
| "refreshFrames (AfterLoginRequest config retryCount k) = refreshFrames k"
| "refreshFrames (AfterRefreshRequest config k) = Suc (refreshFrames k)"

fun callCont :: "pending_call \<Rightarrow> cont" where
  "callCont (WxRequestCall k) = k"
| "callCont (WxLoginCall config retryCount k) = k"

definition refreshesInFlight :: "state \<Rightarrow> nat" where
  "refreshesInFlight s =
     sum_list (map (\<lambda>p. refreshFrames (callCont (snd p))) (pending s)) +
     sum_list (map (\<lambda>q. refreshFrames (snd q)) (retryQueue s))"

text \<open>The outside caller whose promise a continuation settles in the end, the outside
  callers of the continuations that a state holds (pending calls first, then the closures
  of the queue), and the outside callers that a list of events brings in.\<close>

fun callerOf :: "cont \<Rightarrow> nat" where
  "callerOf (Caller c) = c"
| "callerOf (RequestFinally config k) = callerOf k"
| "callerOf (AfterSend config retryCount k) = callerOf k"
| "callerOf (AfterLoginRequest config retryCount k) = callerOf k"
| "callerOf (AfterRefreshRequest config k) = callerOf k"

definition callers :: "state \<Rightarrow> nat list" where
  "callers s =
     map (\<lambda>p. callerOf (callCont (snd p))) (pending s) @
     map (\<lambda>q. callerOf (snd q)) (retryQueue s)"

fun calls :: "event list \<Rightarrow> nat list" where
  "calls [] = []"
| "calls (Call c config # evs) = c # calls evs"
| "calls (Deliver i rep # evs) = calls evs"

text \<open>The platform answers the calls \<open>i\<close>, \<open>i + 1\<close>, ... in turn.\<close>

fun deliveries :: "nat \<Rightarrow> reply list \<Rightarrow> event list" where
  "deliveries i [] = []"
| "deliveries i (r # rs) = Deliver i r # deliveries (Suc i) rs"

text \<open>\<open>n\<close> calls of \<open>authStore.getToken()\<close> in a row, with what they return.\<close>

fun getTokens :: "nat \<Rightarrow> state \<Rightarrow> string list \<times> state" where
  "getTokens 0 s = ([], s)"
| "getTokens (Suc n) s =
     (let (t, s1) = getToken s; (ts, s2) = getTokens n s1 in (t # ts, s2))"

text \<open>The number of reads of the persistent storage in a trace.\<close>

fun storageReads :: "action list \<Rightarrow> nat" where
  "storageReads [] = 0"
| "storageReads (GetStorageSync # as) = Suc (storageReads as)"
| "storageReads (a # as) = storageReads as"

text \<open>A transport request carries the fixed content type.\<close>

fun jsonTyped :: "action \<Rightarrow> bool" where
  "jsonTyped (WxRequest options) =
     (map_of (o_header options) ''Content-Type'' = Some ''application/json'')"
| "jsonTyped _ = True"

fun failure :: "reply \<Rightarrow> error" where
  "failure (RequestFail e) = e"
| "failure (RequestSuccess response) = Error (failureMessage response)"
| "failure (LoginFail e) = e"
| "failure (LoginSuccess c) = Error []"

text \<open>The outside callers that a state knows: those of its continuations and those that
  have their result.\<close>

definition known :: "state \<Rightarrow> nat set" where
  "known s = set (callers s) \<union> fst ` set (results s)"

text \<open>The two parts of \<open>refreshesInFlight\<close>, and the properties that hold between the
  events: the identifiers of the pending calls are distinct and below the counter; the
  number of Refresh Flows in flight is one while \<open>isRefreshing\<close> is set and zero otherwise
  (\<open>settled\<close>); the same with the continuation that is being resumed counted in
  (\<open>balanced\<close>).\<close>

definition pendingFrames :: "state \<Rightarrow> nat" where
  "pendingFrames s = sum_list (map (\<lambda>p. refreshFrames (callCont (snd p))) (pending s))"

definition queueFrames :: "state \<Rightarrow> nat" where
  "queueFrames s = sum_list (map (\<lambda>q. refreshFrames (snd q)) (retryQueue s))"

definition freshIds :: "state \<Rightarrow> bool" where
  "freshIds s = (distinct (map fst (pending s)) \<and> (\<forall>p \<in> set (pending s). fst p < nextId s))"

definition balanced :: "cont \<Rightarrow> state \<Rightarrow> bool" where
  "balanced k s = (freshIds s \<and>
     refreshFrames k + pendingFrames s + queueFrames s = (if isRefreshing s then 1 else 0))"

definition settled :: "state \<Rightarrow> bool" where
  "settled s = (freshIds s \<and>
     pendingFrames s + queueFrames s = (if isRefreshing s then 1 else 0))"

text \<open>A request in flight: the identifier of its pending \<open>wx.request\<close>, its config, its
  \<open>retryCount\<close> and the continuation of its \<open>handleRequest\<close>; the closure that
  \<open>handleTokenExpired\<close> queues for it; and the pending calls that running a list of
  closures leaves, the first of them with the identifier \<open>n\<close>, when every \<open>request\<close> goes
  straight to its send.\<close>

definition awaitsSend :: "state \<Rightarrow> nat \<times> RequestConfig \<times> nat \<times> cont \<Rightarrow> bool" where
  "awaitsSend s w =
     (case w of (j, config, retryCount, k) \<Rightarrow>
        map_of (pending s) j = Some (WxRequestCall (AfterSend config retryCount k)))"

definition closureOf :: "nat \<times> RequestConfig \<times> nat \<times> cont \<Rightarrow> RequestConfig \<times> cont" where
  "closureOf w = (case w of (j, config, retryCount, k) \<Rightarrow> (config, k))"

fun resubmissions :: "nat \<Rightarrow> (RequestConfig \<times> cont) list \<Rightarrow> (nat \<times> pending_call) list" where
  "resubmissions n [] = []"
| "resubmissions n ((config, k) # q) =
     (n, WxRequestCall (AfterSend (mergeConfig config) 0 (RequestFinally (mergeConfig config) k))) #
     resubmissions (Suc n) q"

subsection \<open>Scenarios\<close>

text \<open>A store that holds the token \<open>t\<close>, and an envelope that reports an expired token.\<close>

definition signedIn :: "string \<Rightarrow> state" where
  "signedIn t = init\<lparr>token := t, storage := Some t\<rparr>"

definition env401 :: ResponseData where
  "env401 = \<lparr>code = 401, rdata = \<lparr>ptoken = [], pbody = []\<rparr>, message = ''expired''\<rparr>"

text \<open>Two requests are answered by 401: the first starts the Refresh Flow, the second is
  queued; the refresh exchange has timed out three times and its fourth send is pending.\<close>

definition refreshFails :: state where
  "refreshFails =
     the (run [Call 1 getUser, Call 2 (updateUser ''x''),
               Deliver 0 (RequestSuccess env401), Deliver 1 (RequestSuccess env401),
               Deliver 2 (RequestFail (PlatformFail ''timeout'')),
               Deliver 3 (RequestFail (PlatformFail ''timeout'')),
               Deliver 4 (RequestFail (PlatformFail ''timeout''))] (signedIn ''T1''))"

text \<open>An envelope of success that carries the token \<open>t\<close>.\<close>

definition env200 :: "string \<Rightarrow> ResponseData" where
  "env200 t = \<lparr>code = 200, rdata = \<lparr>ptoken = t, pbody = []\<rparr>, message = []\<rparr>"

text \<open>Two requests are answered by 401: the first starts the Refresh Flow, the second is
  queued; the refresh exchange is pending.\<close>

definition refreshPending :: state where
  "refreshPending =
     the (run [Call 1 getUser, Call 2 (updateUser ''x''),
               Deliver 0 (RequestSuccess env401), Deliver 1 (RequestSuccess env401)]
            (signedIn ''T1''))"

text \<open>Two requests have been sent with the token \<open>T1\<close> and are in flight.\<close>

definition twoInFlight :: state where
  "twoInFlight = the (run [Call 1 getUser, Call 2 (updateUser ''x'')] (signedIn ''T1''))"

text \<open>From the initial state: a request is answered by 401 and its Refresh Flow is in
  flight.\<close>

definition refreshStarted :: state where
  "refreshStarted =
     the (run [Call 1 (loginConfig ''c''), Deliver 0 (RequestSuccess env401)] init)"

section \<open>Properties\<close>

subsection \<open>Unfolding the methods\<close>

lemmas unfold_defs =
  emit_def wx_getStorageSync_def wx_setStorageSync_def wx_removeStorageSync_def
  await_call_def wx_request_def wx_login_def setToken_def getToken_def clearToken_def
  wxRequest_def login_def handleRequest_def request_def refreshToken_def
  handleTokenExpired_def login_finish_def refreshToken_finish_def

lemmas run_defs =
  step_def deliver_def resume_login_def init_def mergeConfig_def truthy_def retryBound_def
  MAX_RETRY_COUNT_def unfold_defs Let_def refreshConfig_def loginConfig_def drainQueue_def

lemma emit_simps [simp]:
  "token (emit a s) = token s"
  "storage (emit a s) = storage s"
  "isRefreshing (emit a s) = isRefreshing s"
  "retryQueue (emit a s) = retryQueue s"
  "pending (emit a s) = pending s"
  "nextId (emit a s) = nextId s"
  "results (emit a s) = results s"
  "trace (emit a s) = trace s @ [a]"
  by (simp_all add: emit_def)

lemma sent_append: "sent (xs @ ys) = sent xs @ sent ys"
  by (induction xs rule: sent.induct) simp_all

subsection \<open>The content type of every transport request\<close>

lemma contentType_requestOptions:
  "map_of (o_header (requestOptions config a)) ''Content-Type'' = Some ''application/json''"
  by (simp add: requestOptions_def update_conv')

lemma jsonTyped_request:
  "list_all jsonTyped (trace s) \<Longrightarrow> list_all jsonTyped (trace (request config k s))"
  by (simp add: unfold_defs Let_def split_def contentType_requestOptions)

lemma jsonTyped_handleRequest:
  "list_all jsonTyped (trace s) \<Longrightarrow> list_all jsonTyped (trace (handleRequest config rc k s))"
  by (simp add: unfold_defs Let_def split_def contentType_requestOptions)

lemma jsonTyped_wxRequest:
  "list_all jsonTyped (trace s) \<Longrightarrow> list_all jsonTyped (trace (wxRequest config k s))"
  by (simp add: unfold_defs Let_def split_def contentType_requestOptions)

lemma jsonTyped_handleTokenExpired:
  "list_all jsonTyped (trace s) \<Longrightarrow>
   list_all jsonTyped (trace (handleTokenExpired config k s))"
  by (simp add: unfold_defs Let_def split_def contentType_requestOptions)

lemma jsonTyped_drain:
  "list_all jsonTyped (trace s) \<Longrightarrow>
   list_all jsonTyped (trace (foldl (\<lambda>s' (config, k). request config k s') s q))"
  by (induction q arbitrary: s) (auto simp: jsonTyped_request)

lemma jsonTyped_resume:
  "list_all jsonTyped (trace s) \<Longrightarrow> list_all jsonTyped (trace (resume k r s))"
proof (induction k r s rule: resume.induct)
  case (1 c r s)
  then show ?case by simp
next
  case (2 finalConfig k r s)
  then show ?case by (simp add: emit_def)
next
  case (3 config retryCount k r s)
  then show ?case
    by (auto simp: jsonTyped_handleRequest jsonTyped_handleTokenExpired split: sum.splits)
next
  case (4 config retryCount k r s)
  then show ?case
    by (auto simp: jsonTyped_handleRequest jsonTyped_wxRequest login_finish_def setToken_def
          wx_setStorageSync_def emit_def split: sum.splits prod.splits)
next
  case (5 config k r s)
  then show ?case
    by (auto simp: refreshToken_finish_def setToken_def clearToken_def wx_setStorageSync_def
          wx_removeStorageSync_def emit_def drainQueue_def Let_def
          intro!: jsonTyped_request jsonTyped_drain split: sum.splits prod.splits)
qed

lemma jsonTyped_step:
  "list_all jsonTyped (trace s) \<Longrightarrow> step ev s = Some s' \<Longrightarrow> list_all jsonTyped (trace s')"
  by (auto simp: step_def deliver_def resume_login_def emit_def Let_def
        intro!: jsonTyped_request jsonTyped_resume jsonTyped_handleRequest
        split: event.splits option.splits pending_call.splits reply.splits sum.splits
               if_splits)

lemma jsonTyped_reachable: "reachable s \<Longrightarrow> list_all jsonTyped (trace s)"
  by (induction rule: reachable.induct) (auto simp: init_def jsonTyped_step)

text \<open>Claim C10. Every transport request that the layer ever issues, in any state it can
  reach, carries the header \<open>Content-Type: application/json\<close>; a \<open>Content-Type\<close> of the
  caller's \<open>config.header\<close> is overridden, since \<open>wxRequest\<close> writes its own entry after
  spreading the caller's.\<close>

theorem content_type_is_json:
  assumes "reachable s" and "WxRequest options \<in> set (trace s)"
  shows "map_of (o_header options) ''Content-Type'' = Some ''application/json''"
proof -
  have "list_all jsonTyped (trace s)"
    using assms(1) by (rule jsonTyped_reachable)
  then have "jsonTyped (WxRequest options)"
    using assms(2) by (auto simp: list_all_iff)
  then show ?thesis by simp
qed

text \<open>The caller asks for \<open>text/plain\<close>; the request goes out as \<open>application/json\<close>.\<close>

theorem content_type_is_json_witness:
  "reachable (request \<lparr> url = ''/upload'', httpMethod = Some ''POST'', data = Raw ''x'',
                header = [(''Content-Type'', ''text/plain'')], loading = None,
                auth = Some False, retry = None \<rparr> (Caller 0) init)
   \<and> WxRequest \<lparr> o_url = ''https://your-api-domain.com/upload'', o_method = Some ''POST'',
                 o_data = Raw ''x'', o_timeout = 10000,
                 o_header = [(''Content-Type'', ''application/json''), (''Authorization'', [])] \<rparr>
       \<in> set (trace (request \<lparr> url = ''/upload'', httpMethod = Some ''POST'', data = Raw ''x'',
                header = [(''Content-Type'', ''text/plain'')], loading = None,
                auth = Some False, retry = None \<rparr> (Caller 0) init))
   \<and> map_of (o_header \<lparr> o_url = ''https://your-api-domain.com/upload'',
                 o_method = Some ''POST'', o_data = Raw ''x'', o_timeout = 10000,
                 o_header = [(''Content-Type'', ''application/json''), (''Authorization'', [])] \<rparr>)
         ''Content-Type'' = Some ''application/json''"
proof -
  let ?config = "\<lparr> url = ''/upload'', httpMethod = Some ''POST'', data = Raw ''x'',
                header = [(''Content-Type'', ''text/plain'')], loading = None,
                auth = Some False, retry = None \<rparr>"
  let ?options = "\<lparr> o_url = ''https://your-api-domain.com/upload'', o_method = Some ''POST'',
                 o_data = Raw ''x'', o_timeout = 10000,
                 o_header = [(''Content-Type'', ''application/json''), (''Authorization'', [])] \<rparr>"
  have r: "reachable (request ?config (Caller 0) init)"
    by (rule reachable_step [OF reachable_init, of "Call 0 ?config"]) (simp add: step_def)
  have m: "WxRequest ?options \<in> set (trace (request ?config (Caller 0) init))"
    by (simp add: unfold_defs init_def mergeConfig_def truthy_def requestOptions_def
          BASE_URL_def TIMEOUT_def Let_def)
  from content_type_is_json [OF r m] r m show ?thesis by blast
qed

subsection \<open>The credential store\<close>

lemma getToken_cached: "token s \<noteq> [] \<Longrightarrow> getToken s = (token s, emit GetToken s)"
  by (simp add: getToken_def Let_def emit_def)

lemma getToken_load:
  "token s = [] \<Longrightarrow>
   getToken s =
     ((case storage s of None \<Rightarrow> [] | Some t \<Rightarrow> t),
      (emit GetStorageSync (emit GetToken s))
        \<lparr>token := (case storage s of None \<Rightarrow> [] | Some t \<Rightarrow> t)\<rparr>)"
  by (simp add: getToken_def Let_def emit_def wx_getStorageSync_def)

lemma getTokens_cached:
  "token s \<noteq> [] \<Longrightarrow>
   getTokens n s = (replicate n (token s), s\<lparr>trace := trace s @ replicate n GetToken\<rparr>)"
proof (induction n arbitrary: s)
  case 0
  then show ?case by simp
next
  case (Suc n)
  have "token (emit GetToken s) \<noteq> []"
    using Suc.prems by (simp add: emit_def)
  from Suc.IH [OF this] Suc.prems show ?case
    by (simp add: getToken_cached emit_def replicate_append_same)
qed

lemma getTokens_empty:
  "token s = [] \<Longrightarrow> storage s = None \<or> storage s = Some [] \<Longrightarrow>
   getTokens n s =
     (replicate n [],
      s\<lparr>trace := trace s @ concat (replicate n [GetToken, GetStorageSync])\<rparr>)"
proof (induction n arbitrary: s)
  case 0
  then show ?case by simp
next
  case (Suc n)
  let ?s1 = "(emit GetStorageSync (emit GetToken s))\<lparr>token := []\<rparr>"
  have g: "getToken s = ([], ?s1)"
    using Suc.prems by (auto simp: getToken_load)
  have "token ?s1 = []" "storage ?s1 = None \<or> storage ?s1 = Some []"
    using Suc.prems by (auto simp: emit_def)
  from Suc.IH [OF this] show ?case
    using Suc.prems(1) by (simp add: g emit_def)
qed

lemma storageReads_append: "storageReads (xs @ ys) = storageReads xs + storageReads ys"
  by (induction xs rule: storageReads.induct) simp_all

lemma storageReads_cached: "storageReads (replicate n GetToken) = 0"
  by (induction n) simp_all

lemma storageReads_loads: "storageReads (concat (replicate n [GetToken, GetStorageSync])) = n"
  by (induction n) simp_all

text \<open>Claim C8, as the code has it. \<open>getToken\<close> takes the empty string for "not loaded
  yet". With a token in memory, any number of calls return it and never read the storage.
  With none in memory and a non-empty one in the storage, the first call reads the storage
  once and caches the token, and the later calls return it without a read. With none in
  memory and none (or the empty string) in the storage, every call returns the empty
  string and reads the storage again.\<close>

theorem getToken_caches:
  "(token s \<noteq> [] \<longrightarrow>
      fst (getTokens n s) = replicate n (token s) \<and>
      storageReads (trace (snd (getTokens n s))) = storageReads (trace s) \<and>
      token (snd (getTokens n s)) = token s) \<and>
   (token s = [] \<and> storage s = Some t \<and> t \<noteq> [] \<longrightarrow>
      fst (getTokens (Suc n) s) = replicate (Suc n) t \<and>
      storageReads (trace (snd (getTokens (Suc n) s))) = Suc (storageReads (trace s)) \<and>
      token (snd (getTokens (Suc n) s)) = t) \<and>
   (token s = [] \<and> (storage s = None \<or> storage s = Some []) \<longrightarrow>
      fst (getTokens n s) = replicate n [] \<and>
      storageReads (trace (snd (getTokens n s))) = storageReads (trace s) + n)"
proof (intro conjI impI)
  assume "token s \<noteq> []"
  then show "fst (getTokens n s) = replicate n (token s)"
    "storageReads (trace (snd (getTokens n s))) = storageReads (trace s)"
    "token (snd (getTokens n s)) = token s"
    by (simp_all add: getTokens_cached storageReads_append storageReads_cached)
next
  assume a: "token s = [] \<and> storage s = Some t \<and> t \<noteq> []"
  let ?s1 = "(emit GetStorageSync (emit GetToken s))\<lparr>token := t\<rparr>"
  have g: "getToken s = (t, ?s1)"
    using a by (simp add: getToken_load)
  have t1: "token ?s1 \<noteq> []"
    using a by simp
  have c: "getTokens (Suc n) s =
             (t # replicate n t, ?s1\<lparr>trace := trace ?s1 @ replicate n GetToken\<rparr>)"
    by (simp add: g getTokens_cached [OF t1])
  show "fst (getTokens (Suc n) s) = replicate (Suc n) t"
    "storageReads (trace (snd (getTokens (Suc n) s))) = Suc (storageReads (trace s))"
    "token (snd (getTokens (Suc n) s)) = t"
    by (simp_all add: c storageReads_append storageReads_cached emit_def
          del: getTokens.simps)
next
  assume a: "token s = [] \<and> (storage s = None \<or> storage s = Some [])"
  then show "fst (getTokens n s) = replicate n []"
    "storageReads (trace (snd (getTokens n s))) = storageReads (trace s) + n"
    by (simp_all add: getTokens_empty storageReads_append storageReads_loads)
qed

text \<open>Three calls with \<open>T1\<close> cached, three calls with \<open>T1\<close> in the storage only, and three
  calls on the empty store.\<close>

theorem getToken_caches_witness:
  "fst (getTokens 3 (init\<lparr>token := ''T1''\<rparr>)) = [''T1'', ''T1'', ''T1'']
   \<and> storageReads (trace (snd (getTokens 3 (init\<lparr>token := ''T1''\<rparr>)))) = 0
   \<and> fst (getTokens 3 (init\<lparr>storage := Some ''T1''\<rparr>)) = [''T1'', ''T1'', ''T1'']
   \<and> storageReads (trace (snd (getTokens 3 (init\<lparr>storage := Some ''T1''\<rparr>)))) = 1
   \<and> fst (getTokens 3 init) = [[], [], []]
   \<and> storageReads (trace (snd (getTokens 3 init))) = 3"
  using getToken_caches [of "init\<lparr>token := ''T1''\<rparr>" 3 "''T1''"]
    getToken_caches [of "init\<lparr>storage := Some ''T1''\<rparr>" 2 "''T1''"]
    getToken_caches [of init 3 "''T1''"]
  by (simp add: init_def numeral_3_eq_3)

text \<open>Claim C8, as the spec states it, fails on the empty store: the second call reads the
  storage again, although the first load has happened.\<close>

theorem getToken_reloads_counterexample:
  "fst (getTokens 2 init) = [[], []] \<and> storageReads (trace (snd (getTokens 2 init))) = 2"
  by (simp add: numeral_2_eq_2 getToken_def wx_getStorageSync_def emit_def init_def Let_def)

subsection \<open>Sending and retrying\<close>

lemma credential_eq:
  "credential s = (if token s = [] then (case storage s of None \<Rightarrow> [] | Some t \<Rightarrow> t) else token s)"
  by (simp add: credential_def getToken_def Let_def emit_def wx_getStorageSync_def)

lemma getToken_fst: "fst (getToken s) = credential s"
  by (simp add: credential_def)

lemma getToken_snd:
  "token (snd (getToken s)) = credential s"
  "storage (snd (getToken s)) = storage s"
  "isRefreshing (snd (getToken s)) = isRefreshing s"
  "retryQueue (snd (getToken s)) = retryQueue s"
  "pending (snd (getToken s)) = pending s"
  "nextId (snd (getToken s)) = nextId s"
  "results (snd (getToken s)) = results s"
  "sent (trace (snd (getToken s))) = sent (trace s)"
  by (simp_all add: credential_eq getToken_def Let_def emit_def wx_getStorageSync_def sent_append)

lemma handleRequest_sendable:
  assumes "truthy (auth config) \<longrightarrow> credential s \<noteq> []"
  shows "token (handleRequest config rc k s) = (if truthy (auth config) then credential s else token s)"
    "storage (handleRequest config rc k s) = storage s"
    "isRefreshing (handleRequest config rc k s) = isRefreshing s"
    "retryQueue (handleRequest config rc k s) = retryQueue s"
    "pending (handleRequest config rc k s) = (nextId s, WxRequestCall (AfterSend config rc k)) # pending s"
    "nextId (handleRequest config rc k s) = Suc (nextId s)"
    "results (handleRequest config rc k s) = results s"
    "sent (trace (handleRequest config rc k s)) = sent (trace s) @ [requestOptions config (authorization config s)]"
  using assms
  by (auto simp add: credential_eq authorization_def unfold_defs Let_def sent_append split: option.splits)

lemma request_sendable:
  assumes "truthy (auth (mergeConfig config)) \<longrightarrow> credential s \<noteq> []"
  shows "token (request config k s) = (if truthy (auth (mergeConfig config)) then credential s else token s)"
    "storage (request config k s) = storage s"
    "isRefreshing (request config k s) = isRefreshing s"
    "retryQueue (request config k s) = retryQueue s"
    "pending (request config k s) = (nextId s, WxRequestCall (AfterSend (mergeConfig config) 0 (RequestFinally (mergeConfig config) k))) # pending s"
    "nextId (request config k s) = Suc (nextId s)"
    "results (request config k s) = results s"
    "sent (trace (request config k s)) = sent (trace s) @ [requestOptions (mergeConfig config) (authorization (mergeConfig config) s)]"
  using assms
  by (auto simp add: credential_eq authorization_def unfold_defs Let_def sent_append split: option.splits)

lemma deliver_failing_retry:
  "failing rep \<Longrightarrow> int rc < retryBound config \<Longrightarrow>
   deliver (WxRequestCall (AfterSend config rc k)) rep s = Some (handleRequest config (Suc rc) k s)"
  by (cases rep) (auto simp: deliver_def)

lemma deliver_failing_last:
  "failing rep \<Longrightarrow> \<not> int rc < retryBound config \<Longrightarrow>
   deliver (WxRequestCall (AfterSend config rc k)) rep s = Some (resume k (Inl (failure rep)) s)"
  by (cases rep) (auto simp: deliver_def)

lemma step_Deliver:
  "map_of (pending s) i = Some c \<Longrightarrow>
   step (Deliver i rep) s = deliver c rep (s\<lparr>pending := AList.delete i (pending s)\<rparr>)"
  by (simp add: step_def)

lemma credential_pending [simp]: "credential (s\<lparr>pending := p\<rparr>) = credential s"
  by (simp add: credential_eq)

lemma authorization_pending [simp]: "authorization config (s\<lparr>pending := p\<rparr>) = authorization config s"
  by (simp add: authorization_def)

lemma credential_handleRequest:
  "truthy (auth config) \<longrightarrow> credential s \<noteq> [] \<Longrightarrow>
   credential (handleRequest config rc k s) = credential s"
  by (simp add: credential_eq [of "handleRequest config rc k s"] handleRequest_sendable)
     (simp add: credential_eq)

lemma authorization_handleRequest:
  "truthy (auth config) \<longrightarrow> credential s \<noteq> [] \<Longrightarrow>
   authorization config' (handleRequest config rc k s) = authorization config' s"
  by (simp add: authorization_def credential_handleRequest)

lemma set_delete_subset: "set (AList.delete i xs) \<subseteq> set xs"
  by (auto simp: AList.delete_eq)


lemma run_append:
  "run (es @ fs) s = (case run es s of None \<Rightarrow> None | Some s' \<Rightarrow> run fs s')"
  by (induction es arbitrary: s) (auto split: option.splits)

lemma deliveries_append:
  "deliveries i (rs @ qs) = deliveries i rs @ deliveries (i + length rs) qs"
  by (induction rs arbitrary: i) simp_all

lemma retry_chain:
  assumes "truthy (auth fc) \<longrightarrow> credential s \<noteq> []"
    and "pending s = (i, WxRequestCall (AfterSend fc rc k)) # rest"
    and "nextId s = Suc i"
    and "list_all failing rs"
    and "int rc + int (length rs) \<le> retryBound fc"
  shows "\<exists>s'. run (deliveries i rs) s = Some s'
          \<and> pending s' = (i + length rs, WxRequestCall (AfterSend fc (rc + length rs) k)) #
                filter (\<lambda>p. fst p \<notin> {i ..< i + length rs}) rest
          \<and> nextId s' = Suc (i + length rs)
          \<and> results s' = results s
          \<and> sent (trace s') = sent (trace s) @
                replicate (length rs) (requestOptions fc (authorization fc s))
          \<and> credential s' = credential s
          \<and> isRefreshing s' = isRefreshing s \<and> retryQueue s' = retryQueue s"
  using assms
proof (induction rs arbitrary: s i rc rest)
  case Nil
  then show ?case by simp
next
  case (Cons r rs)
  define s0 where "s0 = s\<lparr>pending := AList.delete i (pending s)\<rparr>"
  define s1 where "s1 = handleRequest fc (Suc rc) k s0"
  have c0: "truthy (auth fc) \<longrightarrow> credential s0 \<noteq> []"
    using Cons.prems(1) by (simp add: s0_def)
  note p = handleRequest_sendable [OF c0, of "Suc rc" k, folded s1_def]
  have st: "step (Deliver i r) s = Some s1"
    using Cons.prems by (simp add: step_Deliver deliver_failing_retry s1_def s0_def)
  have c1: "credential s1 = credential s"
    using credential_handleRequest [OF c0, of "Suc rc" k] by (simp add: s1_def s0_def)
  then have a1: "authorization fc s1 = authorization fc s"
    by (simp add: authorization_def)
  have a0: "authorization fc s0 = authorization fc s"
    by (simp add: s0_def)
  have c1': "truthy (auth fc) \<longrightarrow> credential s1 \<noteq> []"
    using Cons.prems(1) c1 by simp
  have p1: "pending s1 = (Suc i, WxRequestCall (AfterSend fc (Suc rc) k)) #
              AList.delete i rest"
    using Cons.prems(2,3) by (simp add: p s0_def)
  have n1: "nextId s1 = Suc (Suc i)"
    using Cons.prems(3) by (simp add: p s0_def)
  have f1: "list_all failing rs" and b1: "int (Suc rc) + int (length rs) \<le> retryBound fc"
    using Cons.prems(4,5) by simp_all
  from Cons.IH [OF c1' p1 n1 f1 b1] obtain s' where
    r: "run (deliveries (Suc i) rs) s1 = Some s'"
    and q: "pending s' = (Suc i + length rs, WxRequestCall (AfterSend fc (Suc rc + length rs) k)) #
                filter (\<lambda>p. fst p \<notin> {Suc i ..< Suc i + length rs}) (AList.delete i rest)"
      "nextId s' = Suc (Suc i + length rs)"
      "results s' = results s1"
      "sent (trace s') = sent (trace s1) @
                replicate (length rs) (requestOptions fc (authorization fc s1))"
      "credential s' = credential s1"
      "isRefreshing s' = isRefreshing s1" "retryQueue s' = retryQueue s1"
    by blast
  have flt: "filter (\<lambda>p. fst p \<notin> {Suc i ..< Suc i + length rs}) (AList.delete i rest) =
             filter (\<lambda>p. fst p \<notin> {i ..< i + length (r # rs)}) rest"
    by (auto simp: AList.delete_eq intro!: filter_cong)
  have "run (deliveries i (r # rs)) s = Some s'"
    by (simp add: st r)
  moreover have "pending s' = (i + length (r # rs), WxRequestCall (AfterSend fc (rc + length (r # rs)) k)) #
                filter (\<lambda>p. fst p \<notin> {i ..< i + length (r # rs)}) rest"
    using q(1) flt by simp
  moreover have "sent (trace s') = sent (trace s) @
                replicate (length (r # rs)) (requestOptions fc (authorization fc s))"
    by (simp add: q(4) p a1 a0 s0_def replicate_append_same)
  moreover have "nextId s' = Suc (i + length (r # rs))" "results s' = results s"
    "credential s' = credential s" "isRefreshing s' = isRefreshing s"
    "retryQueue s' = retryQueue s"
    by (simp_all add: q c1 p s0_def)
  ultimately show ?case by blast
qed

lemma attempts_pending:
  assumes b: "retryBound (mergeConfig config) = int m"
    and c: "truthy (auth (mergeConfig config)) \<longrightarrow> credential s \<noteq> []"
    and f: "list_all failing rs" and l: "length rs \<le> m"
  shows "\<exists>s'. run (Call c config # deliveries (nextId s) rs) s = Some s'
          \<and> pending s' =
                (nextId s + length rs,
                 WxRequestCall (AfterSend (mergeConfig config) (length rs)
                   (RequestFinally (mergeConfig config) (Caller c)))) #
                filter (\<lambda>p. fst p \<notin> {nextId s ..< nextId s + length rs}) (pending s)
          \<and> nextId s' = Suc (nextId s + length rs)
          \<and> results s' = results s
          \<and> sent (trace s') = sent (trace s) @
                replicate (Suc (length rs))
                  (requestOptions (mergeConfig config) (authorization (mergeConfig config) s))"
proof -
  define fc where "fc = mergeConfig config"
  define k where "k = RequestFinally fc (Caller c)"
  define s1 where "s1 = request config (Caller c) s"
  note p = request_sendable [OF c, of "Caller c", folded fc_def s1_def]
  have c1: "credential s1 = credential s"
    using c by (auto simp: credential_eq [of s1] p fc_def) (simp_all add: credential_eq)
  then have a1: "authorization fc s1 = authorization fc s"
    by (simp add: authorization_def)
  have c1': "truthy (auth fc) \<longrightarrow> credential s1 \<noteq> []"
    using c c1 by (simp add: fc_def)
  have p1: "pending s1 = (nextId s, WxRequestCall (AfterSend fc 0 k)) # pending s"
    by (simp add: p k_def)
  have n1: "nextId s1 = Suc (nextId s)"
    by (simp add: p)
  have b1: "int 0 + int (length rs) \<le> retryBound fc"
    using b l by (simp add: fc_def)
  from retry_chain [OF c1' p1 n1 f b1] obtain s' where
    r: "run (deliveries (nextId s) rs) s1 = Some s'"
    and q: "pending s' = (nextId s + length rs, WxRequestCall (AfterSend fc (0 + length rs) k)) #
                filter (\<lambda>p. fst p \<notin> {nextId s ..< nextId s + length rs}) (pending s)"
      "nextId s' = Suc (nextId s + length rs)"
      "results s' = results s1"
      "sent (trace s') = sent (trace s1) @
                replicate (length rs) (requestOptions fc (authorization fc s1))"
    by blast
  have "run (Call c config # deliveries (nextId s) rs) s = Some s'"
    by (simp add: step_def r s1_def [symmetric])
  moreover have "sent (trace s') = sent (trace s) @
      replicate (Suc (length rs)) (requestOptions fc (authorization fc s))"
    by (simp add: q(4) p a1 replicate_append_same)
  moreover have "results s' = results s"
    by (simp add: q p)
  ultimately show ?thesis
    using q(1,2) unfolding fc_def [symmetric] k_def [symmetric] by auto
qed

lemma attempts_exhausted:
  assumes b: "retryBound (mergeConfig config) = int m"
    and c: "truthy (auth (mergeConfig config)) \<longrightarrow> credential s \<noteq> []"
    and f: "list_all failing rs" "failing r" and l: "length rs = m"
  shows "\<exists>s'. run (Call c config # deliveries (nextId s) (rs @ [r])) s = Some s'
          \<and> results s' = results s @ [(c, Inl (failure r))]
          \<and> sent (trace s') = sent (trace s) @
                replicate (Suc m)
                  (requestOptions (mergeConfig config) (authorization (mergeConfig config) s))
          \<and> set (pending s') \<subseteq> set (pending s)
          \<and> nextId s' = nextId s + Suc m"
proof -
  define fc where "fc = mergeConfig config"
  define k where "k = RequestFinally fc (Caller c)"
  define i where "i = nextId s + length rs"
  from attempts_pending [OF b c f(1), of c] l obtain s1 where
    r: "run (Call c config # deliveries (nextId s) rs) s = Some s1"
    and q: "pending s1 = (i, WxRequestCall (AfterSend fc m k)) #
                filter (\<lambda>p. fst p \<notin> {nextId s ..< nextId s + length rs}) (pending s)"
      "nextId s1 = Suc (nextId s + length rs)"
      "results s1 = results s"
      "sent (trace s1) = sent (trace s) @
                replicate (Suc m) (requestOptions fc (authorization fc s))"
    unfolding fc_def k_def i_def by auto
  define s2 where "s2 = resume k (Inl (failure r)) (s1\<lparr>pending := AList.delete i (pending s1)\<rparr>)"
  have st: "step (Deliver i r) s1 = Some s2"
    using f(2) b by (simp add: step_Deliver q(1) deliver_failing_last s2_def fc_def)
  have "run (deliveries i [r]) s1 = Some s2"
    by (simp add: st)
  then have "run ((Call c config # deliveries (nextId s) rs) @ deliveries i [r]) s = Some s2"
    by (simp only: run_append r option.case)
  then have "run (Call c config # deliveries (nextId s) (rs @ [r])) s = Some s2"
    by (simp add: deliveries_append i_def)
  moreover have "results s2 = results s @ [(c, Inl (failure r))]"
    by (simp add: s2_def k_def q emit_def)
  moreover have "sent (trace s2) = sent (trace s) @
      replicate (Suc m) (requestOptions fc (authorization fc s))"
    by (simp add: s2_def k_def q emit_def sent_append)
  moreover have "set (pending s2) \<subseteq> set (pending s)"
    by (auto simp: s2_def k_def q AList.delete_eq emit_def)
  moreover have "nextId s2 = nextId s + Suc m"
    using l by (simp add: s2_def k_def q emit_def)
  ultimately show ?thesis
    unfolding fc_def [symmetric] by blast
qed




text \<open>Claim C9. With \<open>retry: 0\<close> passed by the caller, \<open>config.retry || MAX_RETRY_COUNT\<close>
  is \<open>MAX_RETRY_COUNT = 3\<close>: after three failed sends the request is still retried (a
  fourth send is pending with \<open>retryCount = 3\<close>), and only the fourth failure reaches the
  caller, after four transport requests.\<close>

theorem retry_zero_means_default:
  assumes "retry config = Some 0"
    and "truthy (auth (mergeConfig config)) \<longrightarrow> credential s \<noteq> []"
    and "failing r1" "failing r2" "failing r3" "failing r4"
  shows "retryBound (mergeConfig config) = MAX_RETRY_COUNT \<and> MAX_RETRY_COUNT = 3
         \<and> (\<exists>s'. run [Call c config, Deliver (nextId s) r1, Deliver (nextId s + 1) r2,
                  Deliver (nextId s + 2) r3] s = Some s'
           \<and> results s' = results s
           \<and> map_of (pending s') (nextId s + 3) =
                 Some (WxRequestCall (AfterSend (mergeConfig config) 3
                         (RequestFinally (mergeConfig config) (Caller c)))))
         \<and> (\<exists>s'. run [Call c config, Deliver (nextId s) r1, Deliver (nextId s + 1) r2,
                  Deliver (nextId s + 2) r3, Deliver (nextId s + 3) r4] s = Some s'
           \<and> results s' = results s @ [(c, Inl (failure r4))]
           \<and> sent (trace s') = sent (trace s) @
                 replicate 4 (requestOptions (mergeConfig config)
                                (authorization (mergeConfig config) s))
           \<and> set (pending s') \<subseteq> set (pending s)
           \<and> nextId s' = nextId s + 4)"
proof -
  have b: "retryBound (mergeConfig config) = int 3"
    using assms(1) by (simp add: retryBound_def mergeConfig_def MAX_RETRY_COUNT_def)
  have "\<exists>s'. run [Call c config, Deliver (nextId s) r1, Deliver (nextId s + 1) r2,
                  Deliver (nextId s + 2) r3] s = Some s'
           \<and> results s' = results s
           \<and> map_of (pending s') (nextId s + 3) =
                 Some (WxRequestCall (AfterSend (mergeConfig config) 3
                         (RequestFinally (mergeConfig config) (Caller c))))"
    using attempts_pending [OF b assms(2), of "[r1, r2, r3]" c] assms(3-5)
    by (auto simp: numeral_3_eq_3)
  moreover have "\<exists>s'. run [Call c config, Deliver (nextId s) r1, Deliver (nextId s + 1) r2,
                  Deliver (nextId s + 2) r3, Deliver (nextId s + 3) r4] s = Some s'
           \<and> results s' = results s @ [(c, Inl (failure r4))]
           \<and> sent (trace s') = sent (trace s) @
                 replicate 4 (requestOptions (mergeConfig config)
                                (authorization (mergeConfig config) s))
           \<and> set (pending s') \<subseteq> set (pending s)
           \<and> nextId s' = nextId s + 4"
    using attempts_exhausted [OF b assms(2), of "[r1, r2, r3]" r4 c] assms(3-6)
    by (simp add: numeral_3_eq_3 eval_nat_numeral)
  ultimately show ?thesis
    using b by (simp add: MAX_RETRY_COUNT_def)
qed

text \<open>The login exchange with \<open>retry: 0\<close>: four timeouts.\<close>

theorem retry_zero_means_default_witness:
  "retry ((loginConfig ''c'')\<lparr>retry := Some 0\<rparr>) = Some 0
   \<and> \<not> truthy (auth (mergeConfig ((loginConfig ''c'')\<lparr>retry := Some 0\<rparr>)))
   \<and> failing (RequestFail (PlatformFail ''timeout''))
   \<and> retryBound (mergeConfig ((loginConfig ''c'')\<lparr>retry := Some 0\<rparr>)) = 3
   \<and> (\<exists>s'. run [Call 7 ((loginConfig ''c'')\<lparr>retry := Some 0\<rparr>),
                  Deliver 0 (RequestFail (PlatformFail ''timeout'')),
                  Deliver 1 (RequestFail (PlatformFail ''timeout'')),
                  Deliver 2 (RequestFail (PlatformFail ''timeout''))] init = Some s'
           \<and> results s' = []
           \<and> map fst (pending s') = [3])
   \<and> (\<exists>s'. run [Call 7 ((loginConfig ''c'')\<lparr>retry := Some 0\<rparr>),
                  Deliver 0 (RequestFail (PlatformFail ''timeout'')),
                  Deliver 1 (RequestFail (PlatformFail ''timeout'')),
                  Deliver 2 (RequestFail (PlatformFail ''timeout'')),
                  Deliver 3 (RequestFail (PlatformFail ''timeout''))] init = Some s'
           \<and> results s' = [(7, Inl (PlatformFail ''timeout''))]
           \<and> map o_url (sent (trace s')) = replicate 4 ''https://your-api-domain.com/auth/login''
           \<and> pending s' = [])"
proof -
  let ?config = "(loginConfig ''c'')\<lparr>retry := Some 0\<rparr>"
  let ?r = "RequestFail (PlatformFail ''timeout'')"
  have h1: "retry ?config = Some 0"
    by simp
  have a: "\<not> truthy (auth (mergeConfig ?config))"
    by (simp add: truthy_def mergeConfig_def loginConfig_def)
  then have h2: "truthy (auth (mergeConfig ?config)) \<longrightarrow> credential init \<noteq> []"
    by simp
  have h3: "failing ?r"
    by simp
  note t = retry_zero_means_default [OF h1 h2 h3 h3 h3 h3, of 7]
  from t have b: "retryBound (mergeConfig ?config) = 3"
    by simp
  from t obtain s1 where s1:
    "run [Call 7 ?config, Deliver (nextId init) ?r, Deliver (nextId init + 1) ?r,
          Deliver (nextId init + 2) ?r] init = Some s1"
    "results s1 = results init"
    "map_of (pending s1) (nextId init + 3) =
       Some (WxRequestCall (AfterSend (mergeConfig ?config) 3
               (RequestFinally (mergeConfig ?config) (Caller 7))))"
    by blast
  have e1: "run [Call 7 ?config, Deliver 0 ?r, Deliver 1 ?r, Deliver 2 ?r] init = Some s1"
    using s1(1) by (simp add: init_def numeral_2_eq_2 del: run.simps)
  then have "map fst (pending s1) = [3]"
    by (auto simp: init_def unfold_defs step_def deliver_def Let_def mergeConfig_def
          truthy_def loginConfig_def retryBound_def MAX_RETRY_COUNT_def numeral_2_eq_2
          numeral_3_eq_3)
  with e1 s1(2) have w1: "\<exists>s'. run [Call 7 ?config, Deliver 0 ?r, Deliver 1 ?r, Deliver 2 ?r]
                         init = Some s' \<and> results s' = [] \<and> map fst (pending s') = [3]"
    by (auto simp: init_def simp del: run.simps)
  from t obtain s2 where s2:
    "run [Call 7 ?config, Deliver (nextId init) ?r, Deliver (nextId init + 1) ?r,
          Deliver (nextId init + 2) ?r, Deliver (nextId init + 3) ?r] init = Some s2"
    "results s2 = results init @ [(7, Inl (failure ?r))]"
    "sent (trace s2) = sent (trace init) @
       replicate 4 (requestOptions (mergeConfig ?config) (authorization (mergeConfig ?config) init))"
    "set (pending s2) \<subseteq> set (pending init)"
    by blast
  then have w2: "\<exists>s'. run [Call 7 ?config, Deliver 0 ?r, Deliver 1 ?r, Deliver 2 ?r,
                       Deliver 3 ?r] init = Some s'
           \<and> results s' = [(7, Inl (PlatformFail ''timeout''))]
           \<and> map o_url (sent (trace s')) = replicate 4 ''https://your-api-domain.com/auth/login''
           \<and> pending s' = []"
    by (simp add: init_def requestOptions_def BASE_URL_def mergeConfig_def loginConfig_def
          numeral_2_eq_2 numeral_3_eq_3 del: run.simps)
  from h1 a h3 b w1 w2 show ?thesis
    by blast
qed


subsection \<open>A successful answer\<close>

lemma refreshCalls_append: "refreshCalls (xs @ ys) = refreshCalls xs + refreshCalls ys"
  by (induction xs rule: refreshCalls.induct) simp_all

lemma storeActions_append: "storeActions (xs @ ys) = storeActions xs @ storeActions ys"
  by (induction xs rule: storeActions.induct) simp_all

lemma protocolSteps_append: "protocolSteps (xs @ ys) = protocolSteps xs @ protocolSteps ys"
  by (induction xs rule: protocolSteps.induct) simp_all

lemma request_sendable_refreshCalls:
  assumes "truthy (auth (mergeConfig config)) \<longrightarrow> credential s \<noteq> []"
  shows "refreshCalls (trace (request config k s)) = refreshCalls (trace s)"
  using assms
  by (auto simp add: credential_eq unfold_defs Let_def refreshCalls_append split: option.splits)

text \<open>Claim C6. When the first send of a request (\<open>retryCount = 0\<close>) is answered by an
  envelope with code 200, \<open>handleRequest\<close> returns that envelope and \<open>request\<close> hands it,
  unchanged, to whoever awaits the request; on the way the state changes by the removal of
  the answered call and by \<open>wx.hideLoading\<close> alone, so nothing is sent and no refresh
  starts. For a request of an outside caller \<open>c\<close> the resulting state is given in full.
  From the call on, for a request that is sent without a Login Flow: the run of the call and
  the answer issues one transport request, enters \<open>refreshToken\<close> zero times and leaves no
  call pending.\<close>

theorem first_answer_200_is_returned:
  assumes "code response = 200"
  shows "(map_of (pending s) i =
            Some (WxRequestCall (AfterSend fc 0 (RequestFinally fc (Caller c)))) \<longrightarrow>
          step (Deliver i (RequestSuccess response)) s =
            Some (s\<lparr> pending := AList.delete i (pending s),
                     results := results s @ [(c, Inr response)],
                     trace := trace s @ (if truthy (loading fc) then [HideLoading] else []) \<rparr>))
       \<and> (map_of (pending s) i = Some (WxRequestCall (AfterSend fc 0 (RequestFinally fc k))) \<longrightarrow>
          step (Deliver i (RequestSuccess response)) s =
            Some (resume k (Inr response)
                    (s\<lparr> pending := AList.delete i (pending s),
                        trace := trace s @ (if truthy (loading fc) then [HideLoading] else []) \<rparr>)))
       \<and> ((truthy (auth (mergeConfig config)) \<longrightarrow> credential s \<noteq> []) \<longrightarrow>
          (\<exists>s'. run [Call c config, Deliver (nextId s) (RequestSuccess response)] s = Some s'
             \<and> results s' = results s @ [(c, Inr response)]
             \<and> sent (trace s') = sent (trace s) @
                   [requestOptions (mergeConfig config) (authorization (mergeConfig config) s)]
             \<and> refreshCalls (trace s') = refreshCalls (trace s)
             \<and> set (pending s') \<subseteq> set (pending s)
             \<and> nextId s' = Suc (nextId s)))"
proof (intro conjI impI)
  assume "map_of (pending s) i =
            Some (WxRequestCall (AfterSend fc 0 (RequestFinally fc (Caller c))))"
  then show "step (Deliver i (RequestSuccess response)) s =
            Some (s\<lparr> pending := AList.delete i (pending s),
                     results := results s @ [(c, Inr response)],
                     trace := trace s @ (if truthy (loading fc) then [HideLoading] else []) \<rparr>)"
    using assms by (simp add: step_Deliver deliver_def emit_def)
next
  assume "map_of (pending s) i = Some (WxRequestCall (AfterSend fc 0 (RequestFinally fc k)))"
  then show "step (Deliver i (RequestSuccess response)) s =
            Some (resume k (Inr response)
                    (s\<lparr> pending := AList.delete i (pending s),
                        trace := trace s @ (if truthy (loading fc) then [HideLoading] else []) \<rparr>))"
    using assms by (simp add: step_Deliver deliver_def emit_def)
next
  assume c: "truthy (auth (mergeConfig config)) \<longrightarrow> credential s \<noteq> []"
  define fc where "fc = mergeConfig config"
  define s1 where "s1 = request config (Caller c) s"
  note p = request_sendable [OF c, of "Caller c", folded fc_def s1_def]
    request_sendable_refreshCalls [OF c, of "Caller c", folded fc_def s1_def]
  define s2 where "s2 = resume (RequestFinally fc (Caller c)) (Inr response)
                          (s1\<lparr>pending := AList.delete (nextId s) (pending s1)\<rparr>)"
  have "step (Deliver (nextId s) (RequestSuccess response)) s1 = Some s2"
    using assms by (simp add: step_Deliver p deliver_def s2_def)
  then have r: "run [Call c config, Deliver (nextId s) (RequestSuccess response)] s = Some s2"
    by (simp add: step_def s1_def [symmetric])
  have "results s2 = results s @ [(c, Inr response)]"
    "sent (trace s2) = sent (trace s) @ [requestOptions fc (authorization fc s)]"
    "refreshCalls (trace s2) = refreshCalls (trace s)"
    "set (pending s2) \<subseteq> set (pending s)"
    "nextId s2 = Suc (nextId s)"
    by (auto simp: s2_def p emit_def sent_append refreshCalls_append AList.delete_eq)
  with r show "\<exists>s'. run [Call c config, Deliver (nextId s) (RequestSuccess response)] s = Some s'
             \<and> results s' = results s @ [(c, Inr response)]
             \<and> sent (trace s') = sent (trace s) @
                   [requestOptions (mergeConfig config) (authorization (mergeConfig config) s)]
             \<and> refreshCalls (trace s') = refreshCalls (trace s)
             \<and> set (pending s') \<subseteq> set (pending s)
             \<and> nextId s' = Suc (nextId s)"
    unfolding fc_def [symmetric] by blast
qed

text \<open>\<open>getUser\<close> with the token \<open>T1\<close> cached.\<close>

theorem first_answer_200_is_returned_witness:
  "code \<lparr>code = 200, rdata = \<lparr>ptoken = [], pbody = ''{id:1,name:A}''\<rparr>, message = []\<rparr> = 200
   \<and> map_of (pending (request getUser (Caller 7) (init\<lparr>token := ''T1''\<rparr>))) 0 =
         Some (WxRequestCall (AfterSend (mergeConfig getUser) 0
                 (RequestFinally (mergeConfig getUser) (Caller 7))))
   \<and> step (Deliver 0 (RequestSuccess
              \<lparr>code = 200, rdata = \<lparr>ptoken = [], pbody = ''{id:1,name:A}''\<rparr>, message = []\<rparr>))
         (request getUser (Caller 7) (init\<lparr>token := ''T1''\<rparr>)) =
       Some ((request getUser (Caller 7) (init\<lparr>token := ''T1''\<rparr>))
               \<lparr> pending := [],
                 results := [(7, Inr \<lparr>code = 200,
                                      rdata = \<lparr>ptoken = [], pbody = ''{id:1,name:A}''\<rparr>,
                                      message = []\<rparr>)],
                 trace := trace (request getUser (Caller 7) (init\<lparr>token := ''T1''\<rparr>)) @
                          [HideLoading] \<rparr>)
   \<and> credential (init\<lparr>token := ''T1''\<rparr>) = ''T1''
   \<and> (\<exists>s'. run [Call 7 getUser, Deliver 0 (RequestSuccess
              \<lparr>code = 200, rdata = \<lparr>ptoken = [], pbody = ''{id:1,name:A}''\<rparr>, message = []\<rparr>)]
              (init\<lparr>token := ''T1''\<rparr>) = Some s'
         \<and> results s' = [(7, Inr \<lparr>code = 200,
                                     rdata = \<lparr>ptoken = [], pbody = ''{id:1,name:A}''\<rparr>,
                                     message = []\<rparr>)]
         \<and> map (\<lambda>options. map_of (o_header options) ''Authorization'') (sent (trace s')) =
               [Some ''Bearer T1'']
         \<and> refreshCalls (trace s') = 0
         \<and> pending s' = [])"
proof -
  let ?r = "\<lparr>code = 200, rdata = \<lparr>ptoken = [], pbody = ''{id:1,name:A}''\<rparr>, message = []\<rparr>"
  let ?s = "init\<lparr>token := ''T1''\<rparr>"
  let ?s1 = "request getUser (Caller 7) ?s"
  have h: "code ?r = 200"
    by simp
  have c: "credential ?s = ''T1''"
    by (simp add: credential_eq init_def)
  then have c': "truthy (auth (mergeConfig getUser)) \<longrightarrow> credential ?s \<noteq> []"
    by simp
  have p: "map_of (pending ?s1) 0 =
         Some (WxRequestCall (AfterSend (mergeConfig getUser) 0
                 (RequestFinally (mergeConfig getUser) (Caller 7))))"
    by (simp add: request_sendable [OF c']) (simp add: init_def)
  have l: "truthy (loading (mergeConfig getUser))"
    by (simp add: truthy_def mergeConfig_def getUser_def)
  note t1 = first_answer_200_is_returned
    [OF h, where s = ?s1 and i = 0 and fc = "mergeConfig getUser" and c = 7]
  note t = first_answer_200_is_returned [OF h, where s = ?s and c = 7 and config = getUser]
  from t1 p l have a: "step (Deliver 0 (RequestSuccess ?r)) ?s1 =
       Some (?s1\<lparr> pending := [], results := [(7, Inr ?r)], trace := trace ?s1 @ [HideLoading] \<rparr>)"
    by (simp add: request_sendable [OF c']) (simp add: init_def)
  from t c' obtain s' where
    "run [Call 7 getUser, Deliver (nextId ?s) (RequestSuccess ?r)] ?s = Some s'"
    "results s' = results ?s @ [(7, Inr ?r)]"
    "sent (trace s') = sent (trace ?s) @
       [requestOptions (mergeConfig getUser) (authorization (mergeConfig getUser) ?s)]"
    "refreshCalls (trace s') = refreshCalls (trace ?s)"
    "set (pending s') \<subseteq> set (pending ?s)"
    by blast
  then have b: "\<exists>s'. run [Call 7 getUser, Deliver 0 (RequestSuccess ?r)] ?s = Some s'
         \<and> results s' = [(7, Inr ?r)]
         \<and> map (\<lambda>options. map_of (o_header options) ''Authorization'') (sent (trace s')) =
               [Some ''Bearer T1'']
         \<and> refreshCalls (trace s') = 0
         \<and> pending s' = []"
    by (simp add: init_def authorization_def credential_eq getUser_def mergeConfig_def
          truthy_def requestOptions_def del: run.simps)
  from h p a c b show ?thesis
    by blast
qed


subsection \<open>Requests without authentication\<close>

lemma handleRequest_unauthenticated:
  "\<not> truthy (auth config) \<Longrightarrow>
   handleRequest config rc k s =
     s\<lparr> trace := trace s @ [WxRequest (requestOptions config [])],
        pending := (nextId s, WxRequestCall (AfterSend config rc k)) # pending s,
        nextId := Suc (nextId s) \<rparr>"
  by (simp add: unfold_defs)

lemma request_unauthenticated:
  "\<not> truthy (auth (mergeConfig config)) \<Longrightarrow>
   request config k s =
     s\<lparr> trace := trace s @ CallRequest config #
                   (if truthy (loading (mergeConfig config)) then [ShowLoading] else []) @
                   [WxRequest (requestOptions (mergeConfig config) [])],
        pending := (nextId s, WxRequestCall (AfterSend (mergeConfig config) 0
                                (RequestFinally (mergeConfig config) k))) # pending s,
        nextId := Suc (nextId s) \<rparr>"
  by (simp add: request_def Let_def handleRequest_unauthenticated emit_def)

text \<open>Claim C4, as the code has it. For a config with \<open>auth: false\<close>, \<open>request\<close> changes
  the state by its trace, the pending call and the call counter only: the token and the
  storage are untouched and the trace gains no access to the credential store. The transport
  request does carry an \<open>Authorization\<close> entry, with the empty string as its value. While
  the request is answered by anything but a 401 envelope (it returns, fails or is sent
  again), the store is not accessed either, and a request sent again carries the same empty
  entry. A 401 envelope starts the Refresh Flow, which reads and writes the store.\<close>

theorem unauthenticated_request_leaves_store:
  assumes "auth config = Some False"
  shows "request config k s =
           s\<lparr> trace := trace s @ CallRequest config #
                   (if truthy (loading (mergeConfig config)) then [ShowLoading] else []) @
                   [WxRequest (requestOptions (mergeConfig config) [])],
              pending := (nextId s, WxRequestCall (AfterSend (mergeConfig config) 0
                                (RequestFinally (mergeConfig config) k))) # pending s,
              nextId := Suc (nextId s) \<rparr>
       \<and> map_of (o_header (requestOptions (mergeConfig config) [])) ''Authorization'' = Some []
       \<and> storeActions (trace (request config k s)) = storeActions (trace s)
       \<and> (map_of (pending s) i =
             Some (WxRequestCall (AfterSend (mergeConfig config) rc
                     (RequestFinally (mergeConfig config) (Caller c)))) \<and>
           (rep = RequestFail e \<or> rep = RequestSuccess response \<and> code response \<noteq> 401) \<longrightarrow>
           (\<exists>s'. step (Deliver i rep) s = Some s'
              \<and> token s' = token s \<and> storage s' = storage s
              \<and> storeActions (trace s') = storeActions (trace s)
              \<and> (sent (trace s') = sent (trace s) \<or>
                  sent (trace s') = sent (trace s) @ [requestOptions (mergeConfig config) []])))"
proof -
  define fc where "fc = mergeConfig config"
  have a: "\<not> truthy (auth fc)"
    using assms by (simp add: fc_def mergeConfig_def truthy_def)
  have 1: "request config k s =
           s\<lparr> trace := trace s @ CallRequest config #
                   (if truthy (loading fc) then [ShowLoading] else []) @
                   [WxRequest (requestOptions fc [])],
              pending := (nextId s, WxRequestCall (AfterSend fc 0 (RequestFinally fc k))) #
                         pending s,
              nextId := Suc (nextId s) \<rparr>"
    using a unfolding fc_def by (rule request_unauthenticated)
  have 2: "map_of (o_header (requestOptions fc [])) ''Authorization'' = Some []"
    by (simp add: requestOptions_def update_conv')
  have 3: "storeActions (trace (request config k s)) = storeActions (trace s)"
    by (simp add: 1 storeActions_append)
  have 4: "\<exists>s'. step (Deliver i rep) s = Some s'
              \<and> token s' = token s \<and> storage s' = storage s
              \<and> storeActions (trace s') = storeActions (trace s)
              \<and> (sent (trace s') = sent (trace s) \<or>
                  sent (trace s') = sent (trace s) @ [requestOptions fc []])"
    if p: "map_of (pending s) i =
             Some (WxRequestCall (AfterSend fc rc (RequestFinally fc (Caller c))))"
      and r: "rep = RequestFail e \<or> rep = RequestSuccess response \<and> code response \<noteq> 401"
    using r a
    by (auto simp: step_Deliver [OF p] deliver_def handleRequest_unauthenticated emit_def
          storeActions_append sent_append)
  from 1 2 3 4 show ?thesis
    unfolding fc_def by blast
qed

text \<open>The login exchange, which is sent with \<open>auth: false\<close>, and a timeout.\<close>

theorem unauthenticated_request_leaves_store_witness:
  "auth (loginConfig ''c'') = Some False
   \<and> sent (trace (request (loginConfig ''c'') (Caller 7) init)) =
         [\<lparr> o_url = ''https://your-api-domain.com/auth/login'', o_method = Some ''POST'',
            o_data = LoginCode ''c'', o_timeout = 10000,
            o_header = [(''Authorization'', []), (''Content-Type'', ''application/json'')] \<rparr>]
   \<and> storeActions (trace (request (loginConfig ''c'') (Caller 7) init)) = []
   \<and> map_of (pending (request (loginConfig ''c'') (Caller 7) init)) 0 =
         Some (WxRequestCall (AfterSend (mergeConfig (loginConfig ''c'')) 0
                 (RequestFinally (mergeConfig (loginConfig ''c'')) (Caller 7))))
   \<and> (\<exists>s'. step (Deliver 0 (RequestFail (PlatformFail ''timeout'')))
               (request (loginConfig ''c'') (Caller 7) init) = Some s'
          \<and> token s' = [] \<and> storage s' = None \<and> storeActions (trace s') = []
          \<and> map (\<lambda>options. map_of (o_header options) ''Authorization'') (sent (trace s')) =
                [Some [], Some []])"
proof -
  let ?config = "loginConfig ''c''"
  let ?s1 = "request ?config (Caller 7) init"
  have h: "auth ?config = Some False"
    by (simp add: loginConfig_def)
  note t0 = unauthenticated_request_leaves_store [OF h, where s = init and k = "Caller 7"]
  have e: "?s1 = init\<lparr> trace := trace init @ CallRequest ?config #
                   (if truthy (loading (mergeConfig ?config)) then [ShowLoading] else []) @
                   [WxRequest (requestOptions (mergeConfig ?config) [])],
              pending := (nextId init, WxRequestCall (AfterSend (mergeConfig ?config) 0
                                (RequestFinally (mergeConfig ?config) (Caller 7)))) # pending init,
              nextId := Suc (nextId init) \<rparr>"
    using t0 by blast
  have a: "sent (trace ?s1) =
         [\<lparr> o_url = ''https://your-api-domain.com/auth/login'', o_method = Some ''POST'',
            o_data = LoginCode ''c'', o_timeout = 10000,
            o_header = [(''Authorization'', []), (''Content-Type'', ''application/json'')] \<rparr>]"
    "storeActions (trace ?s1) = []"
    by (simp_all add: e) (simp_all add: init_def mergeConfig_def loginConfig_def truthy_def
        requestOptions_def BASE_URL_def TIMEOUT_def)
  have p: "map_of (pending ?s1) 0 =
         Some (WxRequestCall (AfterSend (mergeConfig ?config) 0
                 (RequestFinally (mergeConfig ?config) (Caller 7))))"
    by (simp add: e) (simp add: init_def)
  note t = unauthenticated_request_leaves_store
    [OF h, where s = ?s1 and i = 0 and rc = 0 and c = 7
       and rep = "RequestFail (PlatformFail ''timeout'')" and e = "PlatformFail ''timeout''"]
  from t p obtain s' where s':
    "step (Deliver 0 (RequestFail (PlatformFail ''timeout''))) ?s1 = Some s'"
    "token s' = token ?s1" "storage s' = storage ?s1"
    "storeActions (trace s') = storeActions (trace ?s1)"
    by blast
  have m: "map (\<lambda>options. map_of (o_header options) ''Authorization'') (sent (trace s')) =
                [Some [], Some []]"
    using s'(1)
    by (simp add: e)
       (auto simp: step_def deliver_def init_def mergeConfig_def loginConfig_def truthy_def
          retryBound_def MAX_RETRY_COUNT_def unfold_defs requestOptions_def sent_append)
  have u: "token s' = []" "storage s' = None" "storeActions (trace s') = []"
    using s'(2,3,4) a(2) by (simp_all add: e) (simp_all add: init_def)
  show ?thesis
    by (intro conjI exI [of _ s'] h a p s'(1) u m)
qed

text \<open>Claim C4, as the spec states it, fails: the transport request of the login exchange
  has an \<open>Authorization\<close> header, and when the exchange is answered by a 401 envelope the
  call reads the credential store.\<close>

theorem unauthenticated_request_counterexample:
  "map_option (sent \<circ> trace) (run [Call 0 (loginConfig ''c'')] init) =
     Some [\<lparr> o_url = ''https://your-api-domain.com/auth/login'', o_method = Some ''POST'',
             o_data = LoginCode ''c'', o_timeout = 10000,
             o_header = [(''Authorization'', []), (''Content-Type'', ''application/json'')] \<rparr>]
   \<and> map_option (storeActions \<circ> trace)
         (run [Call 0 (loginConfig ''c''),
               Deliver 0 (RequestSuccess \<lparr>code = 401, rdata = \<lparr>ptoken = [], pbody = []\<rparr>,
                                           message = []\<rparr>)] init) =
     Some [GetToken, GetStorageSync]"
  by (simp add: step_def deliver_def init_def mergeConfig_def loginConfig_def refreshConfig_def
        truthy_def unfold_defs requestOptions_def BASE_URL_def TIMEOUT_def Let_def)


subsection \<open>A failing Login Flow\<close>

lemma handleRequest_needs_login:
  "truthy (auth config) \<Longrightarrow> token s = [] \<Longrightarrow> storage s = None \<or> storage s = Some [] \<Longrightarrow>
   handleRequest config rc k s =
     s\<lparr> trace := trace s @ [GetToken, GetStorageSync, WxLogin],
        pending := (nextId s, WxLoginCall config rc k) # pending s,
        nextId := Suc (nextId s) \<rparr>"
  by (auto simp: unfold_defs Let_def)

text \<open>Claim C5, as the code has it. \<open>await this.login()\<close> stands inside the \<open>try\<close> of
  \<open>handleRequest\<close>, so a failure of the Login Flow reaches its \<open>catch\<close>. For a request of
  an outside caller that still has no credential: when the platform handshake fails, or
  when the last attempt of the server exchange fails, the error is logged and, while
  \<open>retryCount < (config.retry || MAX_RETRY_COUNT)\<close>, nothing reaches the caller: the attempt
  starts again with the credential check and a new \<open>wx.login\<close>, with \<open>retryCount + 1\<close>.
  Only at the bound does the caller receive the error.\<close>

theorem login_failure_is_retried:
  assumes "truthy (auth fc)" and "token s = []" and "storage s = None \<or> storage s = Some []"
  shows "(map_of (pending s) i = Some (WxLoginCall fc rc (RequestFinally fc (Caller c))) \<longrightarrow>
          step (Deliver i (LoginFail e)) s =
            Some (if int rc < retryBound fc
                  then s\<lparr> trace := trace s @ [ConsoleError e, GetToken, GetStorageSync, WxLogin],
                          pending := (nextId s, WxLoginCall fc (Suc rc) (RequestFinally fc (Caller c))) #
                                     AList.delete i (pending s),
                          nextId := Suc (nextId s) \<rparr>
                  else s\<lparr> trace := trace s @ ConsoleError e #
                                     (if truthy (loading fc) then [HideLoading] else []),
                          pending := AList.delete i (pending s),
                          results := results s @ [(c, Inl e)] \<rparr>))
       \<and> (map_of (pending s) i =
            Some (WxRequestCall (AfterSend lc lrc (RequestFinally lc
                    (AfterLoginRequest fc rc (RequestFinally fc (Caller c)))))) \<and>
          failing rep \<and> \<not> int lrc < retryBound lc \<longrightarrow>
          step (Deliver i rep) s =
            Some (if int rc < retryBound fc
                  then s\<lparr> trace := trace s @ (if truthy (loading lc) then [HideLoading] else []) @
                                     [ConsoleError (failure rep), GetToken, GetStorageSync, WxLogin],
                          pending := (nextId s, WxLoginCall fc (Suc rc) (RequestFinally fc (Caller c))) #
                                     AList.delete i (pending s),
                          nextId := Suc (nextId s) \<rparr>
                  else s\<lparr> trace := trace s @ (if truthy (loading lc) then [HideLoading] else []) @
                                     ConsoleError (failure rep) #
                                     (if truthy (loading fc) then [HideLoading] else []),
                          pending := AList.delete i (pending s),
                          results := results s @ [(c, Inl (failure rep))] \<rparr>))"
proof (intro conjI impI)
  assume p: "map_of (pending s) i = Some (WxLoginCall fc rc (RequestFinally fc (Caller c)))"
  show "step (Deliver i (LoginFail e)) s =
            Some (if int rc < retryBound fc
                  then s\<lparr> trace := trace s @ [ConsoleError e, GetToken, GetStorageSync, WxLogin],
                          pending := (nextId s, WxLoginCall fc (Suc rc) (RequestFinally fc (Caller c))) #
                                     AList.delete i (pending s),
                          nextId := Suc (nextId s) \<rparr>
                  else s\<lparr> trace := trace s @ ConsoleError e #
                                     (if truthy (loading fc) then [HideLoading] else []),
                          pending := AList.delete i (pending s),
                          results := results s @ [(c, Inl e)] \<rparr>)"
    using assms
    by (auto simp: step_Deliver [OF p] deliver_def resume_login_def Let_def emit_def
          handleRequest_needs_login)
next
  assume a: "map_of (pending s) i =
            Some (WxRequestCall (AfterSend lc lrc (RequestFinally lc
                    (AfterLoginRequest fc rc (RequestFinally fc (Caller c)))))) \<and>
          failing rep \<and> \<not> int lrc < retryBound lc"
  then have p: "map_of (pending s) i =
            Some (WxRequestCall (AfterSend lc lrc (RequestFinally lc
                    (AfterLoginRequest fc rc (RequestFinally fc (Caller c))))))"
    and f: "failing rep" and b: "\<not> int lrc < retryBound lc"
    by simp_all
  show "step (Deliver i rep) s =
            Some (if int rc < retryBound fc
                  then s\<lparr> trace := trace s @ (if truthy (loading lc) then [HideLoading] else []) @
                                     [ConsoleError (failure rep), GetToken, GetStorageSync, WxLogin],
                          pending := (nextId s, WxLoginCall fc (Suc rc) (RequestFinally fc (Caller c))) #
                                     AList.delete i (pending s),
                          nextId := Suc (nextId s) \<rparr>
                  else s\<lparr> trace := trace s @ (if truthy (loading lc) then [HideLoading] else []) @
                                     ConsoleError (failure rep) #
                                     (if truthy (loading fc) then [HideLoading] else []),
                          pending := AList.delete i (pending s),
                          results := results s @ [(c, Inl (failure rep))] \<rparr>)"
    using assms
    by (auto simp: step_Deliver [OF p] deliver_failing_last [OF f b] login_finish_def emit_def
          handleRequest_needs_login)
qed

text \<open>\<open>getUser\<close> on the empty store: the first refused handshake is followed by a second
  \<open>wx.login\<close>; three refusals give the caller nothing, the fourth gives the error.\<close>

theorem login_failure_is_retried_witness:
  "truthy (auth (mergeConfig getUser))
   \<and> token (request getUser (Caller 7) init) = []
   \<and> storage (request getUser (Caller 7) init) = None
   \<and> map_of (pending (request getUser (Caller 7) init)) 0 =
         Some (WxLoginCall (mergeConfig getUser) 0 (RequestFinally (mergeConfig getUser) (Caller 7)))
   \<and> step (Deliver 0 (LoginFail (PlatformFail ''denied''))) (request getUser (Caller 7) init) =
         Some ((request getUser (Caller 7) init)
                 \<lparr> trace := trace (request getUser (Caller 7) init) @
                             [ConsoleError (PlatformFail ''denied''), GetToken, GetStorageSync,
                              WxLogin],
                   pending := [(1, WxLoginCall (mergeConfig getUser) 1
                                     (RequestFinally (mergeConfig getUser) (Caller 7)))],
                   nextId := 2 \<rparr>)
   \<and> map_option results
         (run [Call 7 getUser, Deliver 0 (LoginFail (PlatformFail ''denied'')),
               Deliver 1 (LoginFail (PlatformFail ''denied'')),
               Deliver 2 (LoginFail (PlatformFail ''denied''))] init) = Some []
   \<and> map_option results
         (run [Call 7 getUser, Deliver 0 (LoginFail (PlatformFail ''denied'')),
               Deliver 1 (LoginFail (PlatformFail ''denied'')),
               Deliver 2 (LoginFail (PlatformFail ''denied'')),
               Deliver 3 (LoginFail (PlatformFail ''denied''))] init) =
         Some [(7, Inl (PlatformFail ''denied''))]"
proof -
  let ?fc = "mergeConfig getUser"
  let ?s1 = "request getUser (Caller 7) init"
  let ?e = "PlatformFail ''denied''"
  have fc: "?fc = getUser\<lparr>auth := Some True, retry := Some 3\<rparr>"
    by (simp add: mergeConfig_def getUser_def MAX_RETRY_COUNT_def)
  have h1: "truthy (auth ?fc)"
    by (simp add: fc truthy_def)
  have s1: "?s1 = init\<lparr> trace := [CallRequest getUser, ShowLoading, GetToken, GetStorageSync,
                                 WxLogin],
                       pending := [(0, WxLoginCall ?fc 0 (RequestFinally ?fc (Caller 7)))],
                       nextId := 1 \<rparr>"
    by (simp add: request_def Let_def emit_def handleRequest_needs_login h1 init_def)
       (simp add: mergeConfig_def truthy_def getUser_def)
  have h2: "token ?s1 = []" and h3: "storage ?s1 = None"
    and h4: "map_of (pending ?s1) 0 = Some (WxLoginCall ?fc 0 (RequestFinally ?fc (Caller 7)))"
    by (simp_all add: s1) (simp_all add: init_def)
  have b: "int 0 < retryBound ?fc"
    by (simp add: fc retryBound_def)
  from login_failure_is_retried [OF h1 h2 disjI1 [OF h3], where i = 0 and rc = 0 and c = 7
      and e = ?e] h4 b
  have a: "step (Deliver 0 (LoginFail ?e)) ?s1 =
         Some (?s1\<lparr> trace := trace ?s1 @ [ConsoleError ?e, GetToken, GetStorageSync, WxLogin],
                   pending := [(1, WxLoginCall ?fc 1 (RequestFinally ?fc (Caller 7)))],
                   nextId := 2 \<rparr>)"
    by (simp add: s1)
  have r: "map_option results
         (run [Call 7 getUser, Deliver 0 (LoginFail ?e), Deliver 1 (LoginFail ?e),
               Deliver 2 (LoginFail ?e)] init) = Some []"
    "map_option results
         (run [Call 7 getUser, Deliver 0 (LoginFail ?e), Deliver 1 (LoginFail ?e),
               Deliver 2 (LoginFail ?e), Deliver 3 (LoginFail ?e)] init) = Some [(7, Inl ?e)]"
    by (simp_all add: step_def deliver_def resume_login_def init_def mergeConfig_def getUser_def
          truthy_def retryBound_def MAX_RETRY_COUNT_def unfold_defs Let_def)
  show ?thesis
    by (intro conjI h1 h2 h3 h4 a r)
qed

text \<open>Claim C5, as the spec states it, fails: after the handshake of \<open>getUser\<close> is
  refused, the caller has received nothing and a second \<open>wx.login\<close> is pending for the
  attempt with \<open>retryCount = 1\<close>.\<close>

theorem login_failure_counterexample:
  "map_option results
     (run [Call 7 getUser, Deliver 0 (LoginFail (PlatformFail ''denied''))] init) = Some []
   \<and> map_option pending
     (run [Call 7 getUser, Deliver 0 (LoginFail (PlatformFail ''denied''))] init) =
     Some [(1, WxLoginCall (getUser\<lparr>auth := Some True, retry := Some 3\<rparr>) 1
                 (RequestFinally (getUser\<lparr>auth := Some True, retry := Some 3\<rparr>) (Caller 7)))]
   \<and> map_option trace
     (run [Call 7 getUser, Deliver 0 (LoginFail (PlatformFail ''denied''))] init) =
     Some [CallRequest getUser, ShowLoading, GetToken, GetStorageSync, WxLogin,
           ConsoleError (PlatformFail ''denied''), GetToken, GetStorageSync, WxLogin]"
  by (simp add: step_def deliver_def resume_login_def init_def mergeConfig_def getUser_def
        truthy_def retryBound_def MAX_RETRY_COUNT_def unfold_defs Let_def)


subsection \<open>A failing Refresh Flow\<close>

lemma known_request:
  "known (request config k s) = insert (callerOf k) (known s)"
  by (auto simp: known_def callers_def unfold_defs Let_def split_def)

lemma known_handleRequest:
  "known (handleRequest config rc k s) = insert (callerOf k) (known s)"
  by (auto simp: known_def callers_def unfold_defs Let_def split_def)

lemma known_wxRequest:
  "known (wxRequest config k s) = insert (callerOf k) (known s)"
  by (auto simp: known_def callers_def unfold_defs Let_def split_def)

lemma known_handleTokenExpired:
  "known (handleTokenExpired config k s) = insert (callerOf k) (known s)"
  by (auto simp: known_def callers_def unfold_defs Let_def split_def)

lemma known_emit [simp]: "known (emit a s) = known s"
  by (simp add: known_def callers_def emit_def)

lemma known_drain:
  "known (foldl (\<lambda>s' (config, k). request config k s') s q) =
   known s \<union> callerOf ` snd ` set q"
  by (induction q arbitrary: s) (auto simp: known_request)

lemma retryQueue_request [simp]: "retryQueue (request config k s) = retryQueue s"
  by (simp add: unfold_defs Let_def split_def)

lemma retryQueue_drain [simp]:
  "retryQueue (foldl (\<lambda>s' (config, k). request config k s') s q) = retryQueue s"
  by (induction q arbitrary: s) auto

lemma known_resume: "known (resume k r s) \<subseteq> insert (callerOf k) (known s)"
proof (induction k r s rule: resume.induct)
  case (1 c r s)
  then show ?case by (auto simp: known_def callers_def)
next
  case (2 finalConfig k r s)
  then show ?case by auto
next
  case (3 config retryCount k r s)
  then show ?case
    by (auto simp: known_handleRequest known_handleTokenExpired split: sum.splits)
next
  case (4 config retryCount k r s)
  have "known (snd (login_finish r s)) = known s"
    by (auto simp: login_finish_def setToken_def wx_setStorageSync_def emit_def known_def
          callers_def split: sum.splits)
  with 4 show ?case
    by (auto simp: known_handleRequest known_wxRequest split: sum.splits prod.splits)
next
  case (5 config k r s)
  have f: "known (snd (refreshToken_finish r s)) = known s"
    "retryQueue (snd (refreshToken_finish r s)) = retryQueue s"
    by (auto simp: refreshToken_finish_def setToken_def clearToken_def wx_setStorageSync_def
          wx_removeStorageSync_def emit_def known_def callers_def split: sum.splits)
  have q: "callerOf ` snd ` set (retryQueue s') \<subseteq> known s'" for s'
    by (auto simp: known_def callers_def)
  have d: "known (s'\<lparr>retryQueue := []\<rparr>) \<subseteq> known s'" 
    "known (s'\<lparr>isRefreshing := b\<rparr>) = known s'" for s' b
    by (auto simp: known_def callers_def)
  show ?case
  proof (cases "refreshToken_finish r s")
    case (Pair o1 s1)
    with f have s1: "known s1 = known s" "retryQueue s1 = retryQueue s" by simp_all
    show ?thesis
    proof (cases o1)
      case (Inl e)
      let ?s3 = "emit QueueReset (emit (SetIsRefreshing False) s1\<lparr>isRefreshing := False\<rparr>)\<lparr>retryQueue := []\<rparr>"
      have "known ?s3 \<subseteq> known s"
        using d(1) [of "emit QueueReset (emit (SetIsRefreshing False) s1\<lparr>isRefreshing := False\<rparr>)"]
        by (simp add: d s1)
      moreover have "known (resume k (Inl e) ?s3) \<subseteq> insert (callerOf k) (known ?s3)"
        using "5.IH" [OF Pair [symmetric] Inl refl refl] .
      ultimately show ?thesis
        by (auto simp: Pair Inl Let_def)
    next
      case (Inr t)
      let ?s2 = "emit (SetIsRefreshing False) s1\<lparr>isRefreshing := False\<rparr>"
      let ?s4 = "emit QueueReset (drainQueue ?s2)\<lparr>retryQueue := []\<rparr>"
      have "known (drainQueue ?s2) = known s"
        using q [of s1] by (auto simp: drainQueue_def known_drain d s1)
      then have "known ?s4 \<subseteq> known s"
        using d(1) [of "emit QueueReset (drainQueue ?s2)"] by simp
      then show ?thesis
        by (auto simp: Pair Inr Let_def known_request)
    qed
  qed
qed

lemma known_delete: "known (s\<lparr>pending := AList.delete i (pending s)\<rparr>) \<subseteq> known s"
  by (auto simp: known_def callers_def AList.delete_eq)

lemma known_pending:
  "map_of (pending s) i = Some c \<Longrightarrow> callerOf (callCont c) \<in> known s"
  by (force simp: known_def callers_def dest: map_of_SomeD)

lemma known_step:
  assumes "step ev s = Some s'"
  shows "known s' \<subseteq> known s \<union> set (calls [ev])"
proof (cases ev)
  case (Call c config)
  with assms show ?thesis
    by (auto simp: step_def known_request)
next
  case (Deliver i rep)
  with assms obtain c where c: "map_of (pending s) i = Some c"
    and d: "deliver c rep (s\<lparr>pending := AList.delete i (pending s)\<rparr>) = Some s'"
    by (auto simp: step_def split: option.splits)
  define s0 where "s0 = s\<lparr>pending := AList.delete i (pending s)\<rparr>"
  have s0: "known s0 \<subseteq> known s" "callerOf (callCont c) \<in> known s"
    using known_delete [where s = s and i = i] known_pending [OF c] by (simp_all add: s0_def)
  have r: "x \<in> known (resume k r t) \<Longrightarrow> x \<noteq> callerOf k \<Longrightarrow> x \<in> known t" for x k r t
    using known_resume [of k r t] by auto
  have "known s' \<subseteq> insert (callerOf (callCont c)) (known s0)"
    using d unfolding s0_def [symmetric]
    by (auto simp: deliver_def resume_login_def Let_def known_request known_handleRequest
          split: pending_call.splits reply.splits if_splits dest: r)
  with s0 show ?thesis
    by (auto simp: Deliver)
qed

lemma calls_append: "calls (xs @ ys) = calls xs @ calls ys"
  by (induction xs rule: calls.induct) simp_all

lemma known_run:
  "run evs s = Some s' \<Longrightarrow> known s' \<subseteq> known s \<union> set (calls evs)"
proof (induction evs arbitrary: s)
  case Nil
  then show ?case by simp
next
  case (Cons ev evs)
  then obtain s1 where 1: "step ev s = Some s1" and 2: "run evs s1 = Some s'"
    by (auto split: option.splits)
  have "calls (ev # evs) = calls [ev] @ calls evs"
    using calls_append [of "[ev]" evs] by simp
  with known_step [OF 1] Cons.IH [OF 2] show ?case
    by auto
qed

text \<open>Claim C2. The refresh exchange of a Refresh Flow that a request of the outside caller
  \<open>c\<close> started fails for good: its last attempt (no retry left) is answered by a failure.
  Then, in one step: \<open>refreshToken\<close> clears the credential store (token empty, storage
  removed); \<open>handleTokenExpired\<close> resets \<open>isRefreshing\<close> and the queue; the caller \<open>c\<close>
  receives the error of the exchange; and nothing else happens, no call is issued, so the
  request is not retried and no closure of the queue is run. The closures are dropped for
  good: provided every outside caller awaits one request at most, a caller whose request
  was queued never receives a result, whatever happens afterwards, unless it calls
  again.\<close>

theorem refresh_failure_clears:
  assumes p: "map_of (pending s) i =
                Some (WxRequestCall (AfterSend rfc n (RequestFinally rfc
                        (AfterRefreshRequest fc (RequestFinally fc (Caller c))))))"
    and f: "failing rep" and b: "\<not> int n < retryBound rfc"
  shows "\<exists>s'. step (Deliver i rep) s = Some s'
           \<and> s' = s\<lparr> token := [], storage := None, isRefreshing := False, retryQueue := [],
                       pending := AList.delete i (pending s),
                       results := results s @ [(c, Inl (failure rep))],
                       trace := trace s @ (if truthy (loading rfc) then [HideLoading] else []) @
                                [ClearToken, RemoveStorageSync, SetIsRefreshing False, QueueReset] @
                                (if truthy (loading fc) then [HideLoading] else []) \<rparr>
           \<and> (distinct (callers s @ map fst (results s)) \<longrightarrow>
                (\<forall>q \<in> set (retryQueue s). \<forall>evs s''.
                   run evs s' = Some s'' \<and> callerOf (snd q) \<notin> set (calls evs) \<longrightarrow>
                   callerOf (snd q) \<notin> fst ` set (results s'')))"
proof -
  define s' where
    "s' = s\<lparr> token := [], storage := None, isRefreshing := False, retryQueue := [],
             pending := AList.delete i (pending s),
             results := results s @ [(c, Inl (failure rep))],
             trace := trace s @ (if truthy (loading rfc) then [HideLoading] else []) @
                      [ClearToken, RemoveStorageSync, SetIsRefreshing False, QueueReset] @
                      (if truthy (loading fc) then [HideLoading] else []) \<rparr>"
  have st: "step (Deliver i rep) s = Some s'"
    by (simp add: step_Deliver [OF p] deliver_failing_last [OF f b] refreshToken_finish_def
          clearToken_def wx_removeStorageSync_def emit_def s'_def)
  have nv: "callerOf (snd q) \<notin> fst ` set (results s'')"
    if d: "distinct (callers s @ map fst (results s))" and q: "q \<in> set (retryQueue s)"
      and r: "run evs s' = Some s''" and n: "callerOf (snd q) \<notin> set (calls evs)"
    for q evs s''
  proof -
    have c: "c \<in> (\<lambda>p. callerOf (callCont (snd p))) ` set (pending s)"
      using map_of_SomeD [OF p] by force
    have "callerOf (snd q) \<in> (\<lambda>q. callerOf (snd q)) ` set (retryQueue s)"
      using q by simp
    with d c have "callerOf (snd q) \<notin> (\<lambda>p. callerOf (callCont (snd p))) ` set (pending s)"
      "callerOf (snd q) \<notin> fst ` set (results s)" "callerOf (snd q) \<noteq> c"
      by (auto simp: callers_def)
    then have "callerOf (snd q) \<notin> known s'"
      by (auto simp: known_def callers_def s'_def AList.delete_eq)
    with known_run [OF r] n show ?thesis
      by (auto simp: known_def)
  qed
  show ?thesis
    using st nv unfolding s'_def [symmetric] by blast
qed

lemma refreshFails_eq:
  "refreshFails =
     \<lparr> token = ''T1'', storage = Some ''T1'', isRefreshing = True,
       retryQueue = [(mergeConfig (updateUser ''x''),
                      RequestFinally (mergeConfig (updateUser ''x'')) (Caller 2))],
       pending = [(5, WxRequestCall
                        (AfterSend (mergeConfig (refreshConfig ''T1'')) 3
                           (RequestFinally (mergeConfig (refreshConfig ''T1''))
                              (AfterRefreshRequest (mergeConfig getUser)
                                 (RequestFinally (mergeConfig getUser) (Caller 1))))))],
       nextId = 6, results = [],
       trace = trace refreshFails \<rparr>"
  by (simp add: refreshFails_def signedIn_def env401_def getUser_def updateUser_def run_defs)

text \<open>In the scenario \<open>refreshFails\<close> the fourth timeout of the refresh exchange ends the
  request of caller 1 with the timeout and leaves caller 2 without an answer.\<close>

theorem refresh_failure_clears_witness:
  "map_of (pending refreshFails) 5 =
     Some (WxRequestCall
             (AfterSend (mergeConfig (refreshConfig ''T1'')) 3
                (RequestFinally (mergeConfig (refreshConfig ''T1''))
                   (AfterRefreshRequest (mergeConfig getUser)
                      (RequestFinally (mergeConfig getUser) (Caller 1))))))
   \<and> failing (RequestFail (PlatformFail ''timeout''))
   \<and> \<not> int 3 < retryBound (mergeConfig (refreshConfig ''T1''))
   \<and> map (\<lambda>q. callerOf (snd q)) (retryQueue refreshFails) = [2]
   \<and> distinct (callers refreshFails @ map fst (results refreshFails))
   \<and> (\<exists>s' s''. step (Deliver 5 (RequestFail (PlatformFail ''timeout''))) refreshFails = Some s'
          \<and> token s' = [] \<and> storage s' = None \<and> isRefreshing s' = False
          \<and> retryQueue s' = [] \<and> pending s' = []
          \<and> results s' = [(1, Inl (PlatformFail ''timeout''))]
          \<and> run [Call 3 getUser] s' = Some s''
          \<and> 2 \<notin> fst ` set (results s''))"
proof -
  let ?rfc = "mergeConfig (refreshConfig ''T1'')"
  let ?fc = "mergeConfig getUser"
  let ?rep = "RequestFail (PlatformFail ''timeout'')"
  let ?q = "(mergeConfig (updateUser ''x''), RequestFinally (mergeConfig (updateUser ''x'')) (Caller 2))"
  have p: "map_of (pending refreshFails) 5 =
     Some (WxRequestCall (AfterSend ?rfc 3 (RequestFinally ?rfc
             (AfterRefreshRequest ?fc (RequestFinally ?fc (Caller 1))))))"
    by (subst refreshFails_eq) simp
  have f: "failing ?rep"
    by simp
  have b: "\<not> int 3 < retryBound ?rfc"
    by (simp add: retryBound_def mergeConfig_def refreshConfig_def MAX_RETRY_COUNT_def)
  have q: "retryQueue refreshFails = [?q]"
    by (subst refreshFails_eq) simp
  have d: "distinct (callers refreshFails @ map fst (results refreshFails))"
    by (subst (1 2) refreshFails_eq) (simp add: callers_def)
  from refresh_failure_clears [OF p f b] obtain s' where
    st: "step (Deliver 5 ?rep) refreshFails = Some s'"
    and s': "s' = refreshFails\<lparr> token := [], storage := None, isRefreshing := False,
                   retryQueue := [], pending := AList.delete 5 (pending refreshFails),
                   results := results refreshFails @ [(1, Inl (failure ?rep))],
                   trace := trace refreshFails @
                            (if truthy (loading ?rfc) then [HideLoading] else []) @
                            [ClearToken, RemoveStorageSync, SetIsRefreshing False, QueueReset] @
                            (if truthy (loading ?fc) then [HideLoading] else []) \<rparr>"
    and nv: "distinct (callers refreshFails @ map fst (results refreshFails)) \<longrightarrow>
                (\<forall>q \<in> set (retryQueue refreshFails). \<forall>evs s''.
                   run evs s' = Some s'' \<and> callerOf (snd q) \<notin> set (calls evs) \<longrightarrow>
                   callerOf (snd q) \<notin> fst ` set (results s''))"
    by blast
  define s'' where "s'' = request getUser (Caller 3) s'"
  have r: "run [Call 3 getUser] s' = Some s''"
    by (simp add: step_def s''_def)
  have "\<forall>evs s''. run evs s' = Some s'' \<and> 2 \<notin> set (calls evs) \<longrightarrow>
                   2 \<notin> fst ` set (results s'')"
    using nv d by (simp add: q)
  then have "run [Call 3 getUser] s' = Some s'' \<and> 2 \<notin> set (calls [Call 3 getUser]) \<longrightarrow>
                   2 \<notin> fst ` set (results s'')"
    by blast
  with r have n: "2 \<notin> fst ` set (results s'')"
    by simp
  have e: "token s' = []" "storage s' = None" "isRefreshing s' = False" "retryQueue s' = []"
    "results s' = [(1, Inl (PlatformFail ''timeout''))]"
    by (simp_all add: s') (subst refreshFails_eq, simp)
  have e': "pending s' = []"
    by (simp add: s') (subst refreshFails_eq, simp)
  have m: "map (\<lambda>q. callerOf (snd q)) (retryQueue refreshFails) = [2]"
    by (simp add: q)
  show ?thesis
    by (intro conjI exI [of _ s'] exI [of _ s''] p f b m d st e e' r n)
qed


subsection \<open>The order of a successful refresh\<close>

lemma protocolSteps_request:
  "protocolSteps (trace (request config k s)) = protocolSteps (trace s) @ [CallRequest config]"
  by (simp add: unfold_defs Let_def split_def protocolSteps_append)

lemma protocolSteps_drain:
  "protocolSteps (trace (foldl (\<lambda>s' (config, k). request config k s') s q)) =
   protocolSteps (trace s) @ map (\<lambda>q. CallRequest (fst q)) q"
  by (induction q arbitrary: s) (auto simp: protocolSteps_request)

lemma isRefreshing_request: "isRefreshing (request config k s) = isRefreshing s"
  by (simp add: unfold_defs Let_def split_def)

lemma isRefreshing_drain:
  "isRefreshing (foldl (\<lambda>s' (config, k). request config k s') s q) = isRefreshing s"
  by (induction q arbitrary: s) (simp_all add: isRefreshing_request split_def)

text \<open>Claim C7, as the code has it. When the refresh exchange of a Refresh Flow is answered
  by an envelope with code 200, \<open>handleTokenExpired\<close> goes on in this order: it writes
  \<open>isRefreshing = false\<close> first; then it runs the closures of the queue, oldest first, each
  of which calls \<open>request\<close> with the config it captured; then it resets the queue; and
  last it calls \<open>request\<close> for the request that started the refresh. Afterwards
  \<open>isRefreshing\<close> is false and the queue is empty.\<close>

theorem refresh_success_order:
  assumes p: "map_of (pending s) i =
                Some (WxRequestCall (AfterSend rfc n (RequestFinally rfc
                        (AfterRefreshRequest fc k))))"
    and c: "code response = 200"
  shows "\<exists>s'. step (Deliver i (RequestSuccess response)) s = Some s'
           \<and> protocolSteps (trace s') =
                 protocolSteps (trace s) @ [SetIsRefreshing False] @
                 map (\<lambda>q. CallRequest (fst q)) (retryQueue s) @ [QueueReset, CallRequest fc]
           \<and> isRefreshing s' = False \<and> retryQueue s' = []"
proof -
  define s0 where "s0 = (if truthy (loading rfc)
      then emit HideLoading (s\<lparr>pending := AList.delete i (pending s)\<rparr>)
      else s\<lparr>pending := AList.delete i (pending s)\<rparr>)"
  define s1 where "s1 = setToken (ptoken (rdata response)) s0"
  define s2 where "s2 = (emit (SetIsRefreshing False) s1)\<lparr>isRefreshing := False\<rparr>"
  define s3 where "s3 = drainQueue s2"
  define s4 where "s4 = (emit QueueReset s3)\<lparr>retryQueue := []\<rparr>"
  define s5 where "s5 = request fc k s4"
  have st: "step (Deliver i (RequestSuccess response)) s = Some s5"
    using c
    by (simp add: step_Deliver [OF p] deliver_def refreshToken_finish_def Let_def
          s5_def s4_def s3_def s2_def s1_def s0_def)
  have q: "retryQueue s2 = retryQueue s"
    by (simp add: s2_def s1_def s0_def setToken_def wx_setStorageSync_def)
  have t2: "protocolSteps (trace s2) = protocolSteps (trace s) @ [SetIsRefreshing False]"
    by (simp add: s2_def s1_def s0_def setToken_def wx_setStorageSync_def protocolSteps_append)
  have t3: "protocolSteps (trace s3) =
      protocolSteps (trace s) @ [SetIsRefreshing False] @
      map (\<lambda>q. CallRequest (fst q)) (retryQueue s)"
    by (simp add: s3_def drainQueue_def protocolSteps_drain t2 q)
  have t5: "protocolSteps (trace s5) =
      protocolSteps (trace s) @ [SetIsRefreshing False] @
      map (\<lambda>q. CallRequest (fst q)) (retryQueue s) @ [QueueReset, CallRequest fc]"
    by (simp add: s5_def protocolSteps_request s4_def protocolSteps_append t3)
  have r5: "isRefreshing s5 = False"
    by (simp add: s5_def isRefreshing_request s4_def s3_def drainQueue_def isRefreshing_drain
          s2_def)
  have q5: "retryQueue s5 = []"
    by (simp add: s5_def retryQueue_request s4_def)
  show ?thesis
    by (intro exI [of _ s5] conjI st t5 r5 q5)
qed

lemma refreshPending_eq:
  "refreshPending =
     \<lparr> token = ''T1'', storage = Some ''T1'', isRefreshing = True,
       retryQueue = [(mergeConfig (updateUser ''x''),
                      RequestFinally (mergeConfig (updateUser ''x'')) (Caller 2))],
       pending = [(2, WxRequestCall
                        (AfterSend (mergeConfig (refreshConfig ''T1'')) 0
                           (RequestFinally (mergeConfig (refreshConfig ''T1''))
                              (AfterRefreshRequest (mergeConfig getUser)
                                 (RequestFinally (mergeConfig getUser) (Caller 1))))))],
       nextId = 3, results = [],
       trace = trace refreshPending \<rparr>"
  by (simp add: refreshPending_def signedIn_def env401_def getUser_def updateUser_def run_defs)

text \<open>The scenario \<open>refreshPending\<close>, with the exchange answered by the token \<open>T2\<close>.\<close>

theorem refresh_success_order_witness:
  "map_of (pending refreshPending) 2 =
     Some (WxRequestCall
             (AfterSend (mergeConfig (refreshConfig ''T1'')) 0
                (RequestFinally (mergeConfig (refreshConfig ''T1''))
                   (AfterRefreshRequest (mergeConfig getUser)
                      (RequestFinally (mergeConfig getUser) (Caller 1))))))
   \<and> code (env200 ''T2'') = 200
   \<and> map fst (retryQueue refreshPending) = [mergeConfig (updateUser ''x'')]
   \<and> (\<exists>s'. step (Deliver 2 (RequestSuccess (env200 ''T2''))) refreshPending = Some s'
          \<and> protocolSteps (trace s') =
                protocolSteps (trace refreshPending) @
                [SetIsRefreshing False, CallRequest (mergeConfig (updateUser ''x'')), QueueReset,
                 CallRequest (mergeConfig getUser)]
          \<and> isRefreshing s' = False \<and> retryQueue s' = [])"
proof -
  have p: "map_of (pending refreshPending) 2 =
     Some (WxRequestCall
             (AfterSend (mergeConfig (refreshConfig ''T1'')) 0
                (RequestFinally (mergeConfig (refreshConfig ''T1''))
                   (AfterRefreshRequest (mergeConfig getUser)
                      (RequestFinally (mergeConfig getUser) (Caller 1))))))"
    by (subst refreshPending_eq) simp
  have c: "code (env200 ''T2'') = 200"
    by (simp add: env200_def)
  have q: "retryQueue refreshPending =
             [(mergeConfig (updateUser ''x''),
               RequestFinally (mergeConfig (updateUser ''x'')) (Caller 2))]"
    by (subst refreshPending_eq) simp
  from refresh_success_order [OF p c] obtain s' where
    st: "step (Deliver 2 (RequestSuccess (env200 ''T2''))) refreshPending = Some s'"
    and t: "protocolSteps (trace s') =
                 protocolSteps (trace refreshPending) @ [SetIsRefreshing False] @
                 map (\<lambda>q. CallRequest (fst q)) (retryQueue refreshPending) @
                 [QueueReset, CallRequest (mergeConfig getUser)]"
    and r: "isRefreshing s' = False" "retryQueue s' = []"
    by blast
  have t': "protocolSteps (trace s') =
                protocolSteps (trace refreshPending) @
                [SetIsRefreshing False, CallRequest (mergeConfig (updateUser ''x'')), QueueReset,
                 CallRequest (mergeConfig getUser)]"
    by (simp add: t q)
  have m: "map fst (retryQueue refreshPending) = [mergeConfig (updateUser ''x'')]"
    by (simp add: q)
  show ?thesis
    by (intro conjI exI [of _ s'] p c m st t' r)
qed

text \<open>Claim C7, as the spec states it, fails: in the run of the scenario the write of
  \<open>isRefreshing = false\<close> comes before the queued request is submitted again and before
  the queue is reset, not after them.\<close>

theorem refresh_success_order_counterexample:
  "map_option (protocolSteps \<circ> trace)
     (run [Call 1 getUser, Call 2 (updateUser ''x''),
           Deliver 0 (RequestSuccess env401), Deliver 1 (RequestSuccess env401),
           Deliver 2 (RequestSuccess (env200 ''T2''))] (signedIn ''T1'')) =
     Some [CallRequest getUser, CallRequest (updateUser ''x''), SetIsRefreshing True,
           CallRequest (refreshConfig ''T1''), SetIsRefreshing False,
           CallRequest (mergeConfig (updateUser ''x'')), QueueReset,
           CallRequest (mergeConfig getUser)]
   \<and> map_option (protocolSteps \<circ> trace)
     (run [Call 1 getUser, Call 2 (updateUser ''x''),
           Deliver 0 (RequestSuccess env401), Deliver 1 (RequestSuccess env401),
           Deliver 2 (RequestSuccess (env200 ''T2''))] (signedIn ''T1'')) \<noteq>
     Some [CallRequest getUser, CallRequest (updateUser ''x''), SetIsRefreshing True,
           CallRequest (refreshConfig ''T1''),
           CallRequest (mergeConfig (updateUser ''x'')), QueueReset, SetIsRefreshing False,
           CallRequest (mergeConfig getUser)]"
  by (simp add: signedIn_def env401_def env200_def getUser_def updateUser_def run_defs)


subsection \<open>One refresh at a time\<close>

lemma refreshesInFlight_eq: "refreshesInFlight s = pendingFrames s + queueFrames s"
  by (simp add: refreshesInFlight_def pendingFrames_def queueFrames_def)

lemma frames_updates [simp]:
  "pendingFrames (s\<lparr>results := r\<rparr>) = pendingFrames s"
  "pendingFrames (s\<lparr>trace := tr\<rparr>) = pendingFrames s"
  "pendingFrames (s\<lparr>token := t\<rparr>) = pendingFrames s"
  "pendingFrames (s\<lparr>storage := st\<rparr>) = pendingFrames s"
  "pendingFrames (s\<lparr>isRefreshing := b\<rparr>) = pendingFrames s"
  "pendingFrames (s\<lparr>retryQueue := q\<rparr>) = pendingFrames s"
  "pendingFrames (emit a s) = pendingFrames s"
  "queueFrames (s\<lparr>results := r\<rparr>) = queueFrames s"
  "queueFrames (s\<lparr>trace := tr\<rparr>) = queueFrames s"
  "queueFrames (s\<lparr>token := t\<rparr>) = queueFrames s"
  "queueFrames (s\<lparr>storage := st\<rparr>) = queueFrames s"
  "queueFrames (s\<lparr>isRefreshing := b\<rparr>) = queueFrames s"
  "queueFrames (s\<lparr>retryQueue := []\<rparr>) = 0"
  "queueFrames (emit a s) = queueFrames s"
  "freshIds (s\<lparr>results := r\<rparr>) = freshIds s"
  "freshIds (s\<lparr>trace := tr\<rparr>) = freshIds s"
  "freshIds (s\<lparr>token := t\<rparr>) = freshIds s"
  "freshIds (s\<lparr>storage := st\<rparr>) = freshIds s"
  "freshIds (s\<lparr>isRefreshing := b\<rparr>) = freshIds s"
  "freshIds (s\<lparr>retryQueue := q\<rparr>) = freshIds s"
  "freshIds (emit a s) = freshIds s"
  by (simp_all add: pendingFrames_def queueFrames_def freshIds_def)


lemma frames_request:
  "pendingFrames (request config k s) = refreshFrames k + pendingFrames s"
  "queueFrames (request config k s) = queueFrames s"
  "isRefreshing (request config k s) = isRefreshing s"
  "freshIds s \<Longrightarrow> freshIds (request config k s)"
  by (auto simp: pendingFrames_def queueFrames_def freshIds_def unfold_defs Let_def split_def
        less_Suc_eq)

lemma frames_handleRequest:
  "pendingFrames (handleRequest config rc k s) = refreshFrames k + pendingFrames s"
  "queueFrames (handleRequest config rc k s) = queueFrames s"
  "isRefreshing (handleRequest config rc k s) = isRefreshing s"
  "freshIds s \<Longrightarrow> freshIds (handleRequest config rc k s)"
  by (auto simp: pendingFrames_def queueFrames_def freshIds_def unfold_defs Let_def split_def
        less_Suc_eq)

lemma frames_wxRequest:
  "pendingFrames (wxRequest config k s) = refreshFrames k + pendingFrames s"
  "queueFrames (wxRequest config k s) = queueFrames s"
  "isRefreshing (wxRequest config k s) = isRefreshing s"
  "freshIds s \<Longrightarrow> freshIds (wxRequest config k s)"
  by (auto simp: pendingFrames_def queueFrames_def freshIds_def unfold_defs Let_def split_def
        less_Suc_eq)

lemma frames_handleTokenExpired:
  "pendingFrames (handleTokenExpired config k s) + queueFrames (handleTokenExpired config k s) =
     (if isRefreshing s then 0 else 1) + refreshFrames k + pendingFrames s + queueFrames s"
  "isRefreshing (handleTokenExpired config k s) = True"
  "freshIds s \<Longrightarrow> freshIds (handleTokenExpired config k s)"
  by (auto simp: pendingFrames_def queueFrames_def freshIds_def unfold_defs Let_def split_def
        less_Suc_eq)

lemma frames_drain:
  "pendingFrames (foldl (\<lambda>s' (config, k). request config k s') s q) =
     pendingFrames s + sum_list (map (\<lambda>q. refreshFrames (snd q)) q)"
  "queueFrames (foldl (\<lambda>s' (config, k). request config k s') s q) = queueFrames s"
  "isRefreshing (foldl (\<lambda>s' (config, k). request config k s') s q) = isRefreshing s"
  "freshIds s \<Longrightarrow> freshIds (foldl (\<lambda>s' (config, k). request config k s') s q)"
  by (induction q arbitrary: s) (auto simp: frames_request)

lemma settled_resume: "balanced k s \<Longrightarrow> settled (resume k r s)"
proof (induction k r s rule: resume.induct)
  case (1 c r s)
  then show ?case
    by (auto simp: balanced_def settled_def split: if_splits)
next
  case (2 finalConfig k r s)
  have "balanced k (if truthy (loading finalConfig) then emit HideLoading s else s)"
    using "2.prems"
    by (auto simp: balanced_def split: if_splits)
  then show ?case
    using "2.IH" by simp
next
  case (3 config retryCount k r s)
  have b: "balanced k s"
    using "3.prems" by (auto simp: balanced_def split: if_splits)
  have h: "settled (handleRequest config (Suc retryCount) k s)"
    using b by (auto simp: balanced_def settled_def frames_handleRequest split: if_splits)
  have t: "settled (handleTokenExpired config k s)"
    using b frames_handleTokenExpired(1) [of config k s]
    by (auto simp: balanced_def settled_def frames_handleTokenExpired split: if_splits)
  show ?case
    using b h t "3.IH" by (auto split: sum.splits)
next
  case (4 config retryCount k r s)
  obtain o1 s1 where f: "login_finish r s = (o1, s1)"
    by (cases "login_finish r s")
  have b: "balanced k s1"
    using "4.prems" f
    by (auto simp: balanced_def login_finish_def setToken_def wx_setStorageSync_def
          split: sum.splits if_splits)
  have h: "settled (handleRequest config (Suc retryCount) k s1)"
    "settled (wxRequest config (AfterSend config retryCount k) s1)"
    using b by (auto simp: balanced_def settled_def frames_handleRequest frames_wxRequest
        split: if_splits)
  show ?case
  proof (cases o1)
    case (Inl e)
    with "4.IH" [OF f [symmetric] Inl] b h show ?thesis
      by (auto simp: f)
  next
    case (Inr t)
    with h show ?thesis by (simp add: f)
  qed
next
  case (5 config k r s)
  obtain o1 s1 where f: "refreshToken_finish r s = (o1, s1)"
    by (cases "refreshToken_finish r s")
  have b: "balanced (AfterRefreshRequest config k) s1"
    using "5.prems" f
    by (auto simp: balanced_def refreshToken_finish_def setToken_def clearToken_def
          wx_setStorageSync_def wx_removeStorageSync_def split: sum.splits if_splits)
  then have z: "isRefreshing s1" "refreshFrames k = 0" "pendingFrames s1 = 0" "queueFrames s1 = 0"
    "freshIds s1"
    by (auto simp: balanced_def split: if_splits)
  show ?case
  proof (cases o1)
    case (Inl e)
    let ?s3 = "emit QueueReset (emit (SetIsRefreshing False) s1\<lparr>isRefreshing := False\<rparr>)\<lparr>retryQueue := []\<rparr>"
    have "balanced k ?s3"
      using z by (auto simp: balanced_def split: if_splits)
    with "5.IH" [OF f [symmetric] Inl refl refl] show ?thesis
      by (simp add: f Inl Let_def)
  next
    case (Inr t)
    let ?s2 = "emit (SetIsRefreshing False) s1\<lparr>isRefreshing := False\<rparr>"
    let ?s4 = "emit QueueReset (drainQueue ?s2)\<lparr>retryQueue := []\<rparr>"
    have s2: "pendingFrames ?s2 = 0" "queueFrames ?s2 = 0" "freshIds ?s2" "\<not> isRefreshing ?s2"
      using z by simp_all
    have "sum_list (map (\<lambda>q. refreshFrames (snd q)) (retryQueue ?s2)) = queueFrames ?s2"
      by (simp add: queueFrames_def)
    with s2 have q2: "sum_list (map (\<lambda>q. refreshFrames (snd q)) (retryQueue ?s2)) = 0"
      by simp
    have "pendingFrames (drainQueue ?s2) = 0" "freshIds (drainQueue ?s2)"
      "\<not> isRefreshing (drainQueue ?s2)"
      unfolding drainQueue_def using s2 q2 by (simp_all add: frames_drain)
    then have "pendingFrames ?s4 = 0" "queueFrames ?s4 = 0" "freshIds ?s4" "\<not> isRefreshing ?s4"
      by simp_all
    then have "settled (request config k ?s4)"
      using z(2) by (simp add: settled_def frames_request)
    then show ?thesis
      by (simp add: f Inr Let_def)
  qed
qed

lemma sum_list_delete:
  "distinct (map fst xs) \<Longrightarrow> map_of xs i = Some c \<Longrightarrow>
   sum_list (map f xs) = (f (i, c) :: nat) + sum_list (map f (AList.delete i xs))"
proof (induction xs)
  case Nil
  then show ?case by simp
next
  case (Cons x xs)
  show ?case
  proof (cases "fst x = i")
    case True
    with Cons.prems have x: "x = (i, c)" and n: "i \<notin> fst ` set xs"
      by (cases x; auto)+
    from n have "filter (\<lambda>(k', _). i \<noteq> k') xs = xs"
      by (force simp: filter_id_conv)
    with x show ?thesis
      by (simp add: AList.delete_eq)
  next
    case False
    with Cons show ?thesis
      by (auto simp: AList.delete_eq)
  qed
qed

lemma balanced_delete:
  assumes "settled s" and "map_of (pending s) i = Some c"
  shows "balanced (callCont c) (s\<lparr>pending := AList.delete i (pending s)\<rparr>)"
proof -
  have d: "distinct (map fst (pending s))"
    using assms(1) by (simp add: settled_def freshIds_def)
  have "pendingFrames s = refreshFrames (callCont c) +
          pendingFrames (s\<lparr>pending := AList.delete i (pending s)\<rparr>)"
    using sum_list_delete [OF d assms(2), of "\<lambda>p. refreshFrames (callCont (snd p))"]
    by (simp add: pendingFrames_def)
  moreover have "freshIds (s\<lparr>pending := AList.delete i (pending s)\<rparr>)"
    using assms(1) by (auto simp: settled_def freshIds_def AList.delete_eq distinct_map_filter)
  moreover have "queueFrames (s\<lparr>pending := AList.delete i (pending s)\<rparr>) = queueFrames s"
    by (simp add: queueFrames_def)
  ultimately show ?thesis
    using assms(1) by (auto simp: settled_def balanced_def split: if_splits)
qed

lemma settled_step:
  assumes "settled s" and "step ev s = Some s'"
  shows "settled s'"
proof (cases ev)
  case (Call c config)
  with assms show ?thesis
    by (auto simp: step_def settled_def frames_request split: if_splits)
next
  case (Deliver i rep)
  with assms obtain c where c: "map_of (pending s) i = Some c"
    and d: "deliver c rep (s\<lparr>pending := AList.delete i (pending s)\<rparr>) = Some s'"
    by (auto simp: step_def split: option.splits)
  define s0 where "s0 = s\<lparr>pending := AList.delete i (pending s)\<rparr>"
  have b: "balanced (callCont c) s0"
    unfolding s0_def using assms(1) c by (rule balanced_delete)
  show ?thesis
  proof (cases c)
    case (WxRequestCall k)
    with d b show ?thesis
      unfolding s0_def [symmetric]
      by (cases rep) (auto simp: deliver_def settled_resume)
  next
    case (WxLoginCall config rc k)
    have e: "balanced k (emit a s0)" for a
      using b by (auto simp: WxLoginCall balanced_def split: if_splits)
    have 1: "settled (request cfg (AfterLoginRequest config rc k) s0)" for cfg
      using b by (auto simp: WxLoginCall balanced_def settled_def frames_request split: if_splits)
    have 2: "settled (handleRequest config (Suc rc) k (emit a s0))" for a
      using e [of a] by (auto simp: balanced_def settled_def frames_handleRequest split: if_splits)
    have 3: "settled (resume k r (emit a s0))" for r a
      using e [of a] by (rule settled_resume)
    show ?thesis
    proof (cases rep)
      case (LoginSuccess cd)
      with d 1 show ?thesis
        unfolding s0_def [symmetric] by (auto simp: WxLoginCall deliver_def resume_login_def)
    next
      case (LoginFail e)
      with d 2 3 show ?thesis
        unfolding s0_def [symmetric]
        by (auto simp: WxLoginCall deliver_def resume_login_def Let_def split: if_splits)
    next
      case (RequestSuccess res)
      with d show ?thesis
        by (simp add: WxLoginCall deliver_def)
    next
      case (RequestFail e)
      with d show ?thesis
        by (simp add: WxLoginCall deliver_def)
    qed
  qed
qed

lemma settled_reachable: "reachable s \<Longrightarrow> settled s"
proof (induction rule: reachable.induct)
  case reachable_init
  then show ?case
    by (simp add: settled_def freshIds_def pendingFrames_def queueFrames_def init_def)
next
  case (reachable_step s ev s')
  then show ?case
    using settled_step by blast
qed

lemma one_refresh_at_a_time:
  "reachable s \<Longrightarrow> refreshesInFlight s = (if isRefreshing s then 1 else 0)"
  using settled_reachable [of s] by (simp add: settled_def refreshesInFlight_eq)

lemma resubmissions_append:
  "resubmissions n (q @ r) = resubmissions n q @ resubmissions (n + length q) r"
  by (induction q arbitrary: n) auto

lemma drain_authenticated:
  assumes "token v = t2" and "t2 \<noteq> []"
    and "list_all (\<lambda>c. truthy (auth (mergeConfig (fst c)))) q"
  shows "pending (foldl (\<lambda>s' (config, k). request config k s') v q) =
           rev (resubmissions (nextId v) q) @ pending v
       \<and> nextId (foldl (\<lambda>s' (config, k). request config k s') v q) = nextId v + length q
       \<and> token (foldl (\<lambda>s' (config, k). request config k s') v q) = t2
       \<and> storage (foldl (\<lambda>s' (config, k). request config k s') v q) = storage v
       \<and> isRefreshing (foldl (\<lambda>s' (config, k). request config k s') v q) = isRefreshing v
       \<and> retryQueue (foldl (\<lambda>s' (config, k). request config k s') v q) = retryQueue v
       \<and> results (foldl (\<lambda>s' (config, k). request config k s') v q) = results v
       \<and> sent (trace (foldl (\<lambda>s' (config, k). request config k s') v q)) =
           sent (trace v) @ map (\<lambda>c. requestOptions (mergeConfig (fst c)) (''Bearer '' @ t2)) q
       \<and> refreshCalls (trace (foldl (\<lambda>s' (config, k). request config k s') v q)) =
           refreshCalls (trace v)"
  using assms
proof (induction q arbitrary: v)
  case Nil
  then show ?case by simp
next
  case (Cons a q)
  obtain config k where a: "a = (config, k)"
    by (cases a)
  define v1 where "v1 = request config k v"
  have cr: "credential v = t2"
    using Cons.prems(1,2) by (simp add: credential_eq)
  have au: "truthy (auth (mergeConfig config))"
    using Cons.prems(3) by (simp add: a)
  have c: "truthy (auth (mergeConfig config)) \<longrightarrow> credential v \<noteq> []"
    using cr Cons.prems(2) by simp
  note p = request_sendable [OF c, of k, folded v1_def]
    request_sendable_refreshCalls [OF c, of k, folded v1_def]
  have t1: "token v1 = t2"
    using au cr by (simp add: p)
  have az: "authorization (mergeConfig config) v = ''Bearer '' @ t2"
    using au cr by (simp add: authorization_def)
  have q: "list_all (\<lambda>c. truthy (auth (mergeConfig (fst c)))) q"
    using Cons.prems(3) by simp
  note ih = Cons.IH [OF t1 Cons.prems(2) q]
  have f: "foldl (\<lambda>s' (config, k). request config k s') v (a # q) =
           foldl (\<lambda>s' (config, k). request config k s') v1 q"
    by (simp add: a v1_def)
  show ?case
    unfolding f using ih by (simp add: p a az)
qed

lemma deliver_expired_queued:
  assumes "isRefreshing t" and "map_of (pending t) j = Some (WxRequestCall (AfterSend config rc k))"
    and "code e = 401"
  shows "step (Deliver j (RequestSuccess e)) t =
           Some (t\<lparr> retryQueue := retryQueue t @ [(config, k)],
                    pending := AList.delete j (pending t),
                    trace := trace t @ [QueuePush config] \<rparr>)"
  using assms
  by (simp add: step_Deliver [OF assms(2)] deliver_def handleTokenExpired_def emit_def)

lemma queueing:
  assumes "isRefreshing t" and "list_all (awaitsSend t) ws" and "distinct (map fst ws)"
    and "list_all (\<lambda>w. code (e (fst w)) = 401) ws"
  shows "run (map (\<lambda>w. Deliver (fst w) (RequestSuccess (e (fst w)))) ws) t =
           Some (t\<lparr> retryQueue := retryQueue t @ map closureOf ws,
                    pending := filter (\<lambda>p. fst p \<notin> set (map fst ws)) (pending t),
                    trace := trace t @ map (\<lambda>w. QueuePush (fst (closureOf w))) ws \<rparr>)"
  using assms
proof (induction ws arbitrary: t)
  case Nil
  then show ?case by simp
next
  case (Cons w ws)
  obtain j config rc k where w: "w = (j, config, rc, k)"
    by (cases w)
  define t1 where "t1 = t\<lparr> retryQueue := retryQueue t @ [(config, k)],
                            pending := AList.delete j (pending t),
                            trace := trace t @ [QueuePush config] \<rparr>"
  have pj: "map_of (pending t) j = Some (WxRequestCall (AfterSend config rc k))"
    using Cons.prems(2) by (simp add: w awaitsSend_def)
  have st: "step (Deliver j (RequestSuccess (e j))) t = Some t1"
    unfolding t1_def using Cons.prems(1) pj
  proof (rule deliver_expired_queued)
    show "code (e j) = 401"
      using Cons.prems(4) by (simp add: w)
  qed
  have r1: "isRefreshing t1"
    using Cons.prems(1) by (simp add: t1_def)
  have a1: "list_all (awaitsSend t1) ws"
    unfolding list_all_iff
  proof
    fix x
    assume x: "x \<in> set ws"
    obtain j' config' rc' k' where x': "x = (j', config', rc', k')"
      by (cases x)
    have "j' \<noteq> j"
      using Cons.prems(3) x by (force simp: w x')
    moreover have "awaitsSend t x"
      using Cons.prems(2) x by (simp add: list_all_iff)
    ultimately show "awaitsSend t1 x"
      by (simp add: awaitsSend_def t1_def x' delete_conv')
  qed
  have d1: "distinct (map fst ws)"
    using Cons.prems(3) by simp
  have e1: "list_all (\<lambda>w. code (e (fst w)) = 401) ws"
    using Cons.prems(4) by simp
  have f: "filter (\<lambda>p. fst p \<notin> set (map fst ws)) (AList.delete j (pending t)) =
           filter (\<lambda>p. fst p \<notin> set (map fst (w # ws))) (pending t)"
    by (auto simp: AList.delete_eq w intro!: filter_cong)
  have "run (map (\<lambda>w. Deliver (fst w) (RequestSuccess (e (fst w)))) (w # ws)) t =
        run (map (\<lambda>w. Deliver (fst w) (RequestSuccess (e (fst w)))) ws) t1"
    by (simp add: st w)
  also have "\<dots> = Some (t1\<lparr> retryQueue := retryQueue t1 @ map closureOf ws,
                    pending := filter (\<lambda>p. fst p \<notin> set (map fst ws)) (pending t1),
                    trace := trace t1 @ map (\<lambda>w. QueuePush (fst (closureOf w))) ws \<rparr>)"
    by (rule Cons.IH [OF r1 a1 d1 e1])
  also have "\<dots> = Some (t\<lparr> retryQueue := retryQueue t @ map closureOf (w # ws),
                    pending := filter (\<lambda>p. fst p \<notin> set (map fst (w # ws))) (pending t),
                    trace := trace t @ map (\<lambda>w. QueuePush (fst (closureOf w))) (w # ws) \<rparr>)"
    using f by (simp add: t1_def closureOf_def w)
  finally show ?case .
qed

lemma deliver_expired_first:
  assumes "\<not> isRefreshing s" and "map_of (pending s) i = Some (WxRequestCall (AfterSend fc rc k))"
    and "code e = 401"
  shows "step (Deliver i (RequestSuccess e)) s =
           Some (s\<lparr> isRefreshing := True, token := credential s,
                    pending := (nextId s, WxRequestCall
                                  (AfterSend (mergeConfig (refreshConfig (credential s))) 0
                                     (RequestFinally (mergeConfig (refreshConfig (credential s)))
                                        (AfterRefreshRequest fc k)))) #
                               AList.delete i (pending s),
                    nextId := Suc (nextId s),
                    trace := trace s @ [SetIsRefreshing True, CallRefreshToken, GetToken] @
                             (if token s = [] then [GetStorageSync] else []) @
                             [CallRequest (refreshConfig (credential s)),
                              WxRequest (requestOptions
                                (mergeConfig (refreshConfig (credential s))) [])] \<rparr>)"
proof -
  have a: "\<not> truthy (auth (mergeConfig (refreshConfig t)))" for t
    by (simp add: truthy_def mergeConfig_def refreshConfig_def)
  have l: "\<not> truthy (loading (mergeConfig (refreshConfig t)))" for t
    by (simp add: truthy_def mergeConfig_def refreshConfig_def)
  show ?thesis
    using assms(1,3)
    by (simp add: step_Deliver [OF assms(2)] deliver_def handleTokenExpired_def refreshToken_def
          Let_def split_def getToken_fst request_unauthenticated [OF a] l)
       (auto simp: credential_eq getToken_def wx_getStorageSync_def Let_def emit_def)
qed

lemma refresh_answered:
  assumes pn: "map_of (pending u) n =
                 Some (WxRequestCall (AfterSend rfc m (RequestFinally rfc
                         (AfterRefreshRequest fc k))))"
    and l: "\<not> truthy (loading rfc)"
    and c: "code response = 200" and t: "ptoken (rdata response) = t2" "t2 \<noteq> []"
    and au: "list_all (\<lambda>c. truthy (auth (mergeConfig (fst c)))) (retryQueue u @ [(fc, k)])"
  shows "\<exists>u'. step (Deliver n (RequestSuccess response)) u = Some u'
           \<and> pending u' = rev (resubmissions (nextId u) (retryQueue u @ [(fc, k)])) @
                            AList.delete n (pending u)
           \<and> nextId u' = Suc (nextId u + length (retryQueue u))
           \<and> token u' = t2 \<and> storage u' = Some t2
           \<and> isRefreshing u' = False \<and> retryQueue u' = []
           \<and> results u' = results u
           \<and> sent (trace u') =
                 sent (trace u) @
                 map (\<lambda>c. requestOptions (mergeConfig (fst c)) (''Bearer '' @ t2))
                   (retryQueue u @ [(fc, k)])
           \<and> refreshCalls (trace u') = refreshCalls (trace u)"
proof -
  define s0 where "s0 = u\<lparr>pending := AList.delete n (pending u)\<rparr>"
  define s1 where "s1 = setToken t2 s0"
  define s2 where "s2 = (emit (SetIsRefreshing False) s1)\<lparr>isRefreshing := False\<rparr>"
  define s3 where "s3 = foldl (\<lambda>s' (config, k). request config k s') s2 (retryQueue u)"
  define s4 where "s4 = (emit QueueReset s3)\<lparr>retryQueue := []\<rparr>"
  define s5 where "s5 = foldl (\<lambda>s' (config, k). request config k s') s4 [(fc, k)]"
  have q2: "retryQueue s1 = retryQueue u"
    by (simp add: s1_def s0_def setToken_def wx_setStorageSync_def)
  have st: "step (Deliver n (RequestSuccess response)) u = Some s5"
    using c l t(1) q2
    by (simp add: step_Deliver [OF pn] deliver_def refreshToken_finish_def Let_def drainQueue_def
          s5_def s4_def s3_def s2_def [symmetric] s1_def [symmetric] s0_def [symmetric])
  have p2: "token s2 = t2" "storage s2 = Some t2" "pending s2 = AList.delete n (pending u)"
    "nextId s2 = nextId u" "results s2 = results u" "sent (trace s2) = sent (trace u)"
    "refreshCalls (trace s2) = refreshCalls (trace u)" "isRefreshing s2 = False"
    by (simp_all add: s2_def s1_def s0_def setToken_def wx_setStorageSync_def sent_append
          refreshCalls_append)
  have a1: "list_all (\<lambda>c. truthy (auth (mergeConfig (fst c)))) (retryQueue u)"
    and a2: "list_all (\<lambda>c. truthy (auth (mergeConfig (fst c)))) [(fc, k)]"
    using au by simp_all
  note d3 = drain_authenticated [OF p2(1) t(2) a1, folded s3_def]
  have p4: "token s4 = t2" "storage s4 = Some t2"
    "pending s4 = rev (resubmissions (nextId u) (retryQueue u)) @ AList.delete n (pending u)"
    "nextId s4 = nextId u + length (retryQueue u)" "results s4 = results u"
    "sent (trace s4) = sent (trace u) @
       map (\<lambda>c. requestOptions (mergeConfig (fst c)) (''Bearer '' @ t2)) (retryQueue u)"
    "refreshCalls (trace s4) = refreshCalls (trace u)" "isRefreshing s4 = False"
    "retryQueue s4 = []"
    using d3 by (simp_all add: s4_def p2 sent_append refreshCalls_append)
  note d5 = drain_authenticated [OF p4(1) t(2) a2, folded s5_def]
  have "pending s5 = rev (resubmissions (nextId u) (retryQueue u @ [(fc, k)])) @
                            AList.delete n (pending u)"
    "nextId s5 = Suc (nextId u + length (retryQueue u))"
    "token s5 = t2" "storage s5 = Some t2" "isRefreshing s5 = False" "retryQueue s5 = []"
    "results s5 = results u"
    "sent (trace s5) = sent (trace u) @
       map (\<lambda>c. requestOptions (mergeConfig (fst c)) (''Bearer '' @ t2))
         (retryQueue u @ [(fc, k)])"
    "refreshCalls (trace s5) = refreshCalls (trace u)"
    using d5 by (simp_all add: p4 resubmissions_append)
  with st show ?thesis
    by (intro exI [of _ s5] conjI)
qed

lemma sent_pushes: "sent (map (\<lambda>w. QueuePush (f w)) ws) = []"
  by (induction ws) simp_all

lemma refreshCalls_pushes: "refreshCalls (map (\<lambda>w. QueuePush (f w)) ws) = 0"
  by (induction ws) simp_all

lemma truthy_auth_mergeConfig: "truthy (auth config) \<Longrightarrow> truthy (auth (mergeConfig config))"
  by (simp add: truthy_def mergeConfig_def)

text \<open>Claim C1, as the code has it. \<open>N\<close> authenticated requests are in flight, no refresh
  is in progress and the queue is empty. The first of them is answered by a 401 envelope,
  then the others are, each by a 401 envelope, before the refresh exchange is answered;
  then the exchange is answered by an envelope with code 200 and a non-empty token. In this
  run \<open>refreshToken\<close> is entered exactly once; the only transport requests are the refresh
  exchange and then the \<open>N\<close> requests again, each with the new token as its bearer: those
  that were queued first, in the order of their 401, the one that started the refresh last;
  each is pending as the first send of a new \<open>request\<close> whose outcome settles the promise
  of the original one; the store holds the new token, \<open>isRefreshing\<close> is false, the queue is
  empty and no caller has been answered yet. And in no state that the layer can reach from
  its initial state is more than one Refresh Flow in flight.\<close>

theorem single_flight_refresh:
  assumes nr: "\<not> isRefreshing s" and q0: "retryQueue s = []"
    and first: "awaitsSend s (i, fc, rc, k)" and rest: "list_all (awaitsSend s) ws"
    and d: "distinct (i # map fst ws)" and fresh: "nextId s \<notin> set (map fst ws)"
    and e: "list_all (\<lambda>w. code (e (fst w)) = 401) ((i, fc, rc, k) # ws)"
    and au: "list_all (\<lambda>w. truthy (auth (fst (closureOf w)))) ((i, fc, rc, k) # ws)"
    and c: "code response = 200" and t: "ptoken (rdata response) = t2" "t2 \<noteq> []"
  shows "(\<exists>s'. run (Deliver i (RequestSuccess (e i)) #
                   map (\<lambda>w. Deliver (fst w) (RequestSuccess (e (fst w)))) ws @
                   [Deliver (nextId s) (RequestSuccess response)]) s = Some s'
           \<and> refreshCalls (trace s') = Suc (refreshCalls (trace s))
           \<and> sent (trace s') =
                 sent (trace s) @
                 requestOptions (mergeConfig (refreshConfig (credential s))) [] #
                 map (\<lambda>c. requestOptions (mergeConfig (fst c)) (''Bearer '' @ t2))
                   (map closureOf ws @ [(fc, k)])
           \<and> pending s' =
                 rev (resubmissions (Suc (nextId s)) (map closureOf ws @ [(fc, k)])) @
                 filter (\<lambda>p. fst p \<notin> set (nextId s # i # map fst ws)) (pending s)
           \<and> token s' = t2 \<and> storage s' = Some t2
           \<and> isRefreshing s' = False \<and> retryQueue s' = []
           \<and> results s' = results s)
       \<and> (\<forall>x. reachable x \<longrightarrow> refreshesInFlight x \<le> 1)"
proof
  define n where "n = nextId s"
  define rfc where "rfc = mergeConfig (refreshConfig (credential s))"
  define call where "call = WxRequestCall (AfterSend rfc 0 (RequestFinally rfc
                               (AfterRefreshRequest fc k)))"
  define s1 where
    "s1 = s\<lparr> isRefreshing := True, token := credential s,
              pending := (n, call) # AList.delete i (pending s),
              nextId := Suc n,
              trace := trace s @ [SetIsRefreshing True, CallRefreshToken, GetToken] @
                       (if token s = [] then [GetStorageSync] else []) @
                       [CallRequest (refreshConfig (credential s)),
                        WxRequest (requestOptions rfc [])] \<rparr>"
  define s2 where
    "s2 = s1\<lparr> retryQueue := retryQueue s1 @ map closureOf ws,
               pending := filter (\<lambda>p. fst p \<notin> set (map fst ws)) (pending s1),
               trace := trace s1 @ map (\<lambda>w. QueuePush (fst (closureOf w))) ws \<rparr>"
  have pi: "map_of (pending s) i = Some (WxRequestCall (AfterSend fc rc k))"
    using first by (simp add: awaitsSend_def)
  have e1: "code (e i) = 401" and es: "list_all (\<lambda>w. code (e (fst w)) = 401) ws"
    using e by simp_all
  have st1: "step (Deliver i (RequestSuccess (e i))) s = Some s1"
    unfolding s1_def call_def rfc_def n_def by (rule deliver_expired_first [OF nr pi e1])
  have r1: "isRefreshing s1"
    by (simp add: s1_def)
  have a1: "list_all (awaitsSend s1) ws"
    unfolding list_all_iff
  proof
    fix x
    assume x: "x \<in> set ws"
    obtain j' config' rc' k' where x': "x = (j', config', rc', k')"
      by (cases x)
    have "j' \<noteq> i" "j' \<noteq> n"
      using d fresh x by (force simp: x' n_def)+
    moreover have "awaitsSend s x"
      using rest x by (simp add: list_all_iff)
    ultimately show "awaitsSend s1 x"
      by (simp add: awaitsSend_def s1_def x' delete_conv')
  qed
  have ds: "distinct (map fst ws)"
    using d by simp
  have run2: "run (map (\<lambda>w. Deliver (fst w) (RequestSuccess (e (fst w)))) ws) s1 = Some s2"
    unfolding s2_def by (rule queueing [OF r1 a1 ds es])
  have p2: "pending s2 = (n, call) # filter (\<lambda>p. fst p \<notin> set (map fst ws))
                                       (AList.delete i (pending s))"
    using fresh by (simp add: s2_def s1_def n_def)
  have pn: "map_of (pending s2) n =
              Some (WxRequestCall (AfterSend rfc 0 (RequestFinally rfc
                      (AfterRefreshRequest fc k))))"
    by (simp add: p2 call_def)
  have l: "\<not> truthy (loading rfc)"
    by (simp add: rfc_def truthy_def mergeConfig_def refreshConfig_def)
  have q2: "retryQueue s2 = map closureOf ws"
    using q0 by (simp add: s2_def s1_def)
  have au2: "list_all (\<lambda>c. truthy (auth (mergeConfig (fst c)))) (retryQueue s2 @ [(fc, k)])"
    using au by (auto simp: q2 list_all_iff closureOf_def intro!: truthy_auth_mergeConfig)
  from refresh_answered [OF pn l c t au2] obtain s3 where
    st3: "step (Deliver n (RequestSuccess response)) s2 = Some s3"
    and p3: "pending s3 = rev (resubmissions (nextId s2) (retryQueue s2 @ [(fc, k)])) @
                            AList.delete n (pending s2)"
      "token s3 = t2" "storage s3 = Some t2" "isRefreshing s3 = False" "retryQueue s3 = []"
      "results s3 = results s2"
      "sent (trace s3) =
                 sent (trace s2) @
                 map (\<lambda>c. requestOptions (mergeConfig (fst c)) (''Bearer '' @ t2))
                   (retryQueue s2 @ [(fc, k)])"
      "refreshCalls (trace s3) = refreshCalls (trace s2)"
    by blast
  have "run [Deliver n (RequestSuccess response)] s2 = Some s3"
    by (simp add: st3)
  with run2 have "run (map (\<lambda>w. Deliver (fst w) (RequestSuccess (e (fst w)))) ws @
                       [Deliver n (RequestSuccess response)]) s1 = Some s3"
    by (simp only: run_append option.case)
  with st1 have r: "run (Deliver i (RequestSuccess (e i)) #
                   map (\<lambda>w. Deliver (fst w) (RequestSuccess (e (fst w)))) ws @
                   [Deliver n (RequestSuccess response)]) s = Some s3"
    by (simp only: run.simps option.case)
  have f: "AList.delete n (pending s2) =
           filter (\<lambda>p. fst p \<notin> set (n # i # map fst ws)) (pending s)"
    by (auto simp: p2 AList.delete_eq intro!: filter_cong)
  have 1: "refreshCalls (trace s3) = Suc (refreshCalls (trace s))"
    by (simp add: p3 s2_def s1_def refreshCalls_append refreshCalls_pushes)
  have 2: "sent (trace s3) = sent (trace s) @ requestOptions rfc [] #
                 map (\<lambda>c. requestOptions (mergeConfig (fst c)) (''Bearer '' @ t2))
                   (map closureOf ws @ [(fc, k)])"
    by (simp add: p3 q2) (simp add: s2_def s1_def sent_append sent_pushes)
  have 3: "pending s3 = rev (resubmissions (Suc n) (map closureOf ws @ [(fc, k)])) @
                 filter (\<lambda>p. fst p \<notin> set (n # i # map fst ws)) (pending s)"
    by (simp only: p3 f q2) (simp add: s2_def s1_def)
  have 4: "results s3 = results s"
    by (simp add: p3 s2_def s1_def)
  show "\<exists>s'. run (Deliver i (RequestSuccess (e i)) #
                   map (\<lambda>w. Deliver (fst w) (RequestSuccess (e (fst w)))) ws @
                   [Deliver (nextId s) (RequestSuccess response)]) s = Some s'
           \<and> refreshCalls (trace s') = Suc (refreshCalls (trace s))
           \<and> sent (trace s') =
                 sent (trace s) @
                 requestOptions (mergeConfig (refreshConfig (credential s))) [] #
                 map (\<lambda>c. requestOptions (mergeConfig (fst c)) (''Bearer '' @ t2))
                   (map closureOf ws @ [(fc, k)])
           \<and> pending s' =
                 rev (resubmissions (Suc (nextId s)) (map closureOf ws @ [(fc, k)])) @
                 filter (\<lambda>p. fst p \<notin> set (nextId s # i # map fst ws)) (pending s)
           \<and> token s' = t2 \<and> storage s' = Some t2
           \<and> isRefreshing s' = False \<and> retryQueue s' = []
           \<and> results s' = results s"
    unfolding n_def [symmetric] rfc_def [symmetric]
    by (intro exI [of _ s3] conjI r 1 2 3 p3(2,3,4,5) 4)
next
  show "\<forall>x. reachable x \<longrightarrow> refreshesInFlight x \<le> 1"
    by (simp add: one_refresh_at_a_time)
qed

lemma mergeConfig_idem: "mergeConfig (mergeConfig config) = mergeConfig config"
  by (simp add: mergeConfig_def split: option.splits)

lemma twoInFlight_eq:
  "twoInFlight =
     \<lparr> token = ''T1'', storage = Some ''T1'', isRefreshing = False, retryQueue = [],
       pending = [(1, WxRequestCall (AfterSend (mergeConfig (updateUser ''x'')) 0
                        (RequestFinally (mergeConfig (updateUser ''x'')) (Caller 2)))),
                  (0, WxRequestCall (AfterSend (mergeConfig getUser) 0
                        (RequestFinally (mergeConfig getUser) (Caller 1))))],
       nextId = 2, results = [],
       trace = trace twoInFlight \<rparr>"
  by (simp add: twoInFlight_def signedIn_def getUser_def updateUser_def run_defs)

lemma run_reachable: "reachable s \<Longrightarrow> run evs s = Some s' \<Longrightarrow> reachable s'"
proof (induction evs arbitrary: s)
  case Nil
  then show ?case by simp
next
  case (Cons ev evs)
  then obtain s1 where 1: "step ev s = Some s1" and 2: "run evs s1 = Some s'"
    by (auto split: option.splits)
  from Cons.prems(1) 1 have "reachable s1"
    by (rule reachable_step)
  from Cons.IH [OF this 2] show ?case .
qed

text \<open>The scenario \<open>twoInFlight\<close>: both requests are answered by 401, the refresh gives
  \<open>T2\<close>, and both are sent again with \<open>Bearer T2\<close>. The state \<open>refreshStarted\<close> is reachable
  and has one Refresh Flow in flight.\<close>

theorem single_flight_refresh_witness:
  "\<not> isRefreshing twoInFlight \<and> retryQueue twoInFlight = [] \<and> nextId twoInFlight = 2
   \<and> awaitsSend twoInFlight
         (0, mergeConfig getUser, 0, RequestFinally (mergeConfig getUser) (Caller 1))
   \<and> awaitsSend twoInFlight
         (1, mergeConfig (updateUser ''x''), 0,
          RequestFinally (mergeConfig (updateUser ''x'')) (Caller 2))
   \<and> code env401 = 401 \<and> code (env200 ''T2'') = 200
   \<and> (\<exists>s'. run [Deliver 0 (RequestSuccess env401), Deliver 1 (RequestSuccess env401),
                  Deliver 2 (RequestSuccess (env200 ''T2''))] twoInFlight = Some s'
          \<and> refreshCalls (trace s') = Suc (refreshCalls (trace twoInFlight))
          \<and> sent (trace s') =
                sent (trace twoInFlight) @
                [requestOptions (mergeConfig (refreshConfig ''T1'')) [],
                 requestOptions (mergeConfig (updateUser ''x'')) ''Bearer T2'',
                 requestOptions (mergeConfig getUser) ''Bearer T2'']
          \<and> map fst (pending s') = [4, 3]
          \<and> token s' = ''T2'' \<and> storage s' = Some ''T2''
          \<and> isRefreshing s' = False \<and> retryQueue s' = [] \<and> results s' = [])
   \<and> reachable refreshStarted \<and> isRefreshing refreshStarted
   \<and> refreshesInFlight refreshStarted \<le> 1"
proof -
  let ?fc1 = "mergeConfig getUser"
  let ?fc2 = "mergeConfig (updateUser ''x'')"
  let ?w1 = "(0::nat, ?fc1, 0::nat, RequestFinally ?fc1 (Caller 1))"
  let ?w2 = "(1::nat, ?fc2, 0::nat, RequestFinally ?fc2 (Caller 2))"
  have h1: "\<not> isRefreshing twoInFlight" and h2: "retryQueue twoInFlight = []"
    and h3: "nextId twoInFlight = 2"
    and h4: "awaitsSend twoInFlight ?w1" and h5: "awaitsSend twoInFlight ?w2"
    by (subst twoInFlight_eq, simp add: awaitsSend_def)+
  have h6: "code env401 = 401" and h7: "code (env200 ''T2'') = 200"
    and h8: "ptoken (rdata (env200 ''T2'')) = ''T2''"
    by (simp_all add: env401_def env200_def)
  have cr: "credential twoInFlight = ''T1''"
    by (subst twoInFlight_eq) (simp add: credential_eq)
  have a: "list_all (awaitsSend twoInFlight) [?w2]"
    using h5 by simp
  have d: "distinct ((0::nat) # map fst [?w2])" and fr: "nextId twoInFlight \<notin> set (map fst [?w2])"
    by (simp_all add: h3)
  have e: "list_all (\<lambda>w. code ((\<lambda>j. env401) (fst w)) = 401) [?w1, ?w2]"
    by (simp add: h6)
  have au: "list_all (\<lambda>w. truthy (auth (fst (closureOf w)))) [?w1, ?w2]"
    by (simp add: closureOf_def truthy_def mergeConfig_def getUser_def updateUser_def)
  note t = single_flight_refresh [OF h1 h2 h4 a d fr e au h7 h8]
  from t obtain s' where
    r: "run (Deliver 0 (RequestSuccess env401) #
             map (\<lambda>w. Deliver (fst w) (RequestSuccess env401)) [?w2] @
             [Deliver (nextId twoInFlight) (RequestSuccess (env200 ''T2''))]) twoInFlight = Some s'"
    and c: "refreshCalls (trace s') = Suc (refreshCalls (trace twoInFlight))"
      "sent (trace s') =
         sent (trace twoInFlight) @
         requestOptions (mergeConfig (refreshConfig (credential twoInFlight))) [] #
         map (\<lambda>c. requestOptions (mergeConfig (fst c)) (''Bearer '' @ ''T2''))
           (map closureOf [?w2] @ [(?fc1, RequestFinally ?fc1 (Caller 1))])"
      "pending s' =
         rev (resubmissions (Suc (nextId twoInFlight))
                (map closureOf [?w2] @ [(?fc1, RequestFinally ?fc1 (Caller 1))])) @
         filter (\<lambda>p. fst p \<notin> set (nextId twoInFlight # 0 # map fst [?w2]))
           (pending twoInFlight)"
      "token s' = ''T2''" "storage s' = Some ''T2''" "isRefreshing s' = False"
      "retryQueue s' = []" "results s' = results twoInFlight"
    by auto
  have r': "run [Deliver 0 (RequestSuccess env401), Deliver 1 (RequestSuccess env401),
                 Deliver 2 (RequestSuccess (env200 ''T2''))] twoInFlight = Some s'"
    using r by (simp add: h3 del: run.simps)
  have c2: "sent (trace s') =
                sent (trace twoInFlight) @
                [requestOptions (mergeConfig (refreshConfig ''T1'')) [],
                 requestOptions ?fc2 ''Bearer T2'', requestOptions ?fc1 ''Bearer T2'']"
    by (simp add: c(2) cr closureOf_def mergeConfig_idem)
  have c3: "map fst (pending s') = [4, 3]"
    unfolding c(3) h3 by (subst twoInFlight_eq) (simp add: closureOf_def)
  have c8: "results s' = []"
    unfolding c(8) by (subst twoInFlight_eq) simp
  have x: "run [Call 1 (loginConfig ''c''), Deliver 0 (RequestSuccess env401)] init =
             Some refreshStarted"
    by (simp add: refreshStarted_def env401_def run_defs)
  have rs: "reachable refreshStarted"
    using reachable_init x by (rule run_reachable)
  have ir: "isRefreshing refreshStarted"
    by (simp add: refreshStarted_def env401_def run_defs)
  from t rs have le: "refreshesInFlight refreshStarted \<le> 1"
    by blast
  show ?thesis
    by (intro conjI exI [of _ s'] h1 h2 h3 h4 h5 h6 h7 r' c(1) c2 c3 c(4,5,6,7) c8 rs ir le)
qed

text \<open>Claim C1, as the spec states it, fails in two ways. When the 401 of the second
  request arrives after the refresh has completed, no refresh is in progress and it starts
  a Refresh Flow of its own: \<open>refreshToken\<close> is entered twice. And when the refresh exchange
  fails, nothing is submitted again: the transport requests are the two original ones and
  the four attempts of the exchange, the first caller is rejected and the queued request is
  dropped.\<close>

theorem single_flight_refresh_counterexample:
  "map_option (refreshCalls \<circ> trace)
     (run [Call 1 getUser, Call 2 (updateUser ''x''),
           Deliver 0 (RequestSuccess env401), Deliver 2 (RequestSuccess (env200 ''T2'')),
           Deliver 1 (RequestSuccess env401)] (signedIn ''T1'')) = Some 2
   \<and> map_option (map o_url \<circ> sent \<circ> trace)
     (run [Call 1 getUser, Call 2 (updateUser ''x''),
           Deliver 0 (RequestSuccess env401), Deliver 1 (RequestSuccess env401),
           Deliver 2 (RequestFail (PlatformFail ''timeout'')),
           Deliver 3 (RequestFail (PlatformFail ''timeout'')),
           Deliver 4 (RequestFail (PlatformFail ''timeout'')),
           Deliver 5 (RequestFail (PlatformFail ''timeout''))] (signedIn ''T1'')) =
     Some [''https://your-api-domain.com/user/info'', ''https://your-api-domain.com/user/update'',
           ''https://your-api-domain.com/auth/refresh'', ''https://your-api-domain.com/auth/refresh'',
           ''https://your-api-domain.com/auth/refresh'', ''https://your-api-domain.com/auth/refresh'']
   \<and> map_option results
     (run [Call 1 getUser, Call 2 (updateUser ''x''),
           Deliver 0 (RequestSuccess env401), Deliver 1 (RequestSuccess env401),
           Deliver 2 (RequestFail (PlatformFail ''timeout'')),
           Deliver 3 (RequestFail (PlatformFail ''timeout'')),
           Deliver 4 (RequestFail (PlatformFail ''timeout'')),
           Deliver 5 (RequestFail (PlatformFail ''timeout''))] (signedIn ''T1'')) =
     Some [(1, Inl (PlatformFail ''timeout''))]
   \<and> map_option pending
     (run [Call 1 getUser, Call 2 (updateUser ''x''),
           Deliver 0 (RequestSuccess env401), Deliver 1 (RequestSuccess env401),
           Deliver 2 (RequestFail (PlatformFail ''timeout'')),
           Deliver 3 (RequestFail (PlatformFail ''timeout'')),
           Deliver 4 (RequestFail (PlatformFail ''timeout'')),
           Deliver 5 (RequestFail (PlatformFail ''timeout''))] (signedIn ''T1'')) = Some []"
  by (simp add: signedIn_def env401_def env200_def getUser_def updateUser_def run_defs
        requestOptions_def BASE_URL_def)

end
